theory Spec2Isabelle
  imports Main "HOL-Library.Char_ord" "HOL-Library.List_Lexorder" "HOL-Library.Signed_Division"
begin

section \<open>Data model of \<open>model/tableModel.go\<close>\<close>

text \<open>
  Go's \<open>int\<close> is modelled as \<open>int\<close>: every integer of the program is a length, an index
  or a sum of column widths (which \<open>ShowTable\<close> keeps between 10 and 40), far from the
  64-bit bounds. A Go \<open>string\<close> is a byte sequence, modelled as \<open>string\<close> (a list of
  8-bit characters); \<open><\<close> on strings is the byte-wise lexicographic order, as in Go.
  A \<open>table.Row\<close> is a \<open>[]string\<close>; a nil slice and an empty slice are both \<open>[]\<close>.
\<close>

type_synonym Row = "string list"

text \<open>\<open>table.Column\<close> of the bubbles library: a title and a display width.\<close>

record Column =
  col_Title :: string
  col_Width :: int

text \<open>
  The embedded widget \<open>table.Model\<close> (bubbles library), reduced to the fields the
  program reads or writes through the widget's interface: the columns, the rows, the
  cursor and the focus flag. Sizes and styles are not kept: they affect how the widget
  is drawn and, for the height, which rows \<open>table.New\<close> renders.
\<close>

record table_Model =
  cols :: "Column list"
  rows :: "Row list"
  cursor :: int
  focus :: bool

text \<open>Runtime panics of Go, and the errors the program returns, as values.\<close>

datatype error =
    IndexOutOfRange
  | SliceBoundsOutOfRange
  | MkdirAllFailed
  | CreateFailed
  | FuelExhausted
  | InvalidDuration string
  | MissingUnitInDuration string
  | UnknownUnitInDuration string string

text \<open>
  \<open>TableModel\<close>. The static fields \<open>Help\<close>, \<open>Keys\<close> and \<open>Paginator\<close> are left out;
  \<open>TextInput\<close> is the text held by the filter input widget; \<open>QueryDuration\<close> is in
  nanoseconds, as \<open>time.Duration\<close> is.
\<close>

record TableModel =
  Table :: table_Model
  Title :: string
  RowCount :: int
  QueryDuration :: int
  ShowHelp :: bool
  SortColumn :: int
  SortAsc :: bool
  OriginalRows :: "Row list"
  FilteredRows :: "Row list"
  AllRows :: "Row list"
  FilterText :: string
  Filtering :: bool
  StatusMsg :: string
  TableColumns :: "Column list"
  ScrollOffset :: int
  MaxColumns :: int
  Width :: int
  Height :: int
  TextInput :: string

abbreviation len :: "'a list \<Rightarrow> int" where
  "len xs \<equiv> int (length xs)"

section \<open>The table widget's interface\<close>

text \<open>
  \<open>table.New\<close> with the options \<open>WithColumns\<close>, \<open>WithRows\<close>, \<open>WithFocused\<close> and
  \<open>WithHeight\<close>: the cursor of a new widget is 0. \<open>New\<close> ends by rendering the
  first page of rows (\<open>UpdateViewport\<close>: the rows from the cursor on, as many as the
  height less the header line), and rendering a row reads \<open>m.cols[i]\<close> for every cell
  \<open>i\<close> of the row: it panics on a row with more cells than the widget has columns.

  \<open>SetCursor\<close>, \<open>MoveUp\<close>, \<open>MoveDown\<close> and the setters of sizes and styles render
  again. The program calls them on the widget \<open>UpdateVisibleColumns\<close> has built,
  whose rows are cut to the visible columns, so that no row has more cells than the
  widget has columns and the rendering cannot panic (\<open>visibleRow_length\<close> below), and
  in \<open>ShowTable\<close> on the new widget, with the page \<open>New\<close> has rendered. They are
  modelled by what they do to the cursor. (A dataset without headers keeps the widget
  of \<open>ShowTable\<close>, which has no column; moving its cursor to a page with a non-empty
  row is outside the model.)
\<close>

definition table_New ::
  "Column list \<Rightarrow> Row list \<Rightarrow> bool \<Rightarrow> int \<Rightarrow> error + table_Model" where
  "table_New cs rs f h =
     (if list_ex (\<lambda>row. length cs < length row) (take (nat (h - 1)) rs)
      then Inl IndexOutOfRange
      else Inr \<lparr>cols = cs, rows = rs, cursor = 0, focus = f\<rparr>)"

definition clamp :: "int \<Rightarrow> int \<Rightarrow> int \<Rightarrow> int" where
  "clamp v low high = min (max v low) high"

definition SetCursor :: "int \<Rightarrow> table_Model \<Rightarrow> table_Model" where
  "SetCursor n t = t\<lparr>cursor := clamp n 0 (len (rows t) - 1)\<rparr>"

definition SelectedRow :: "table_Model \<Rightarrow> Row" where
  "SelectedRow t =
     (if cursor t < 0 \<or> cursor t \<ge> len (rows t) then []
      else rows t ! nat (cursor t))"

definition MoveUp :: "int \<Rightarrow> table_Model \<Rightarrow> table_Model" where
  "MoveUp n t = t\<lparr>cursor := clamp (cursor t - n) 0 (len (rows t) - 1)\<rparr>"

definition MoveDown :: "int \<Rightarrow> table_Model \<Rightarrow> table_Model" where
  "MoveDown n t = t\<lparr>cursor := clamp (cursor t + n) 0 (len (rows t) - 1)\<rparr>"

text \<open>
  The key messages the program sends to the widget, or forwards to it: the widget
  moves its cursor on \<open>up\<close> and \<open>down\<close> when it has the focus, and has no binding for
  the program's own keys (\<open>left\<close>, \<open>right\<close>, \<open>shift+left\<close>, \<open>shift+right\<close>).
\<close>

datatype KeyMsg = KeyUp | KeyDown | KeyLeft | KeyRight | KeyShiftLeft | KeyShiftRight

fun table_Update :: "KeyMsg \<Rightarrow> table_Model \<Rightarrow> table_Model" where
  "table_Update KeyUp t = (if focus t then MoveUp 1 t else t)"
| "table_Update KeyDown t = (if focus t then MoveDown 1 t else t)"
| "table_Update _ t = t"

section \<open>Go runtime and library functions the program calls\<close>

text \<open>The index expression \<open>s[i]\<close>: Go panics unless \<open>0 \<le> i < len(s)\<close>.\<close>

definition index :: "'a list \<Rightarrow> int \<Rightarrow> error + 'a" where
  "index s i = (if 0 \<le> i \<and> i < len s then Inr (s ! nat i) else Inl IndexOutOfRange)"

text \<open>
  \<open>strings.Contains\<close> (a substring test on bytes), \<open>strings.Join\<close>, and
  \<open>strings.ReplaceAll\<close> for the one-byte pattern the program replaces.
\<close>

fun HasPrefix :: "string \<Rightarrow> string \<Rightarrow> bool" where
  "HasPrefix s [] = True"
| "HasPrefix [] (p # ps) = False"
| "HasPrefix (c # cs) (p # ps) = (c = p \<and> HasPrefix cs ps)"

fun Contains :: "string \<Rightarrow> string \<Rightarrow> bool" where
  "Contains [] substr = (substr = [])"
| "Contains (c # cs) substr = (HasPrefix (c # cs) substr \<or> Contains cs substr)"

fun Join :: "string list \<Rightarrow> string \<Rightarrow> string" where
  "Join [] sep = []"
| "Join [x] sep = x"
| "Join (x # y # ys) sep = x @ sep @ Join (y # ys) sep"

definition ReplaceAll :: "string \<Rightarrow> char \<Rightarrow> string \<Rightarrow> string" where
  "ReplaceAll s old new = concat (map (\<lambda>c. if c = old then new else [c]) s)"

text \<open>\<open>%d\<close> of a Go \<open>int\<close>: the decimal digits, with a sign when negative.\<close>

fun digits :: "nat \<Rightarrow> string" where
  "digits n =
     (if n < 10 then [char_of (48 + n)]
      else digits (n div 10) @ [char_of (48 + n mod 10)])"

definition Itoa :: "int \<Rightarrow> string" where
  "Itoa i = (if i < 0 then CHR ''-'' # digits (nat (- i)) else digits (nat i))"

text \<open>
  \<open>strings.ToLower\<close> maps Unicode letters and is a parameter of the functions that
  call it. On ASCII strings it is \<open>asciiToLower\<close>: the bytes \<open>A\<close> to \<open>Z\<close> are shifted
  to \<open>a\<close> to \<open>z\<close>.
\<close>

definition asciiToLower :: "string \<Rightarrow> string" where
  "asciiToLower s =
     map (\<lambda>c. if CHR ''A'' \<le> c \<and> c \<le> CHR ''Z'' then char_of (of_char c + (32::nat)) else c) s"

text \<open>
  \<open>time.ParseDuration\<close>: an optional sign is consumed; what is left is the duration 0
  when it is \<open>0\<close>, an invalid duration when it is empty, and is otherwise parsed as a
  sequence of decimal numbers with unit suffixes, which \<open>parseUnits\<close> stands for (it
  takes the sign, the rest and the original string).
\<close>

definition ParseDuration ::
  "(bool \<Rightarrow> string \<Rightarrow> string \<Rightarrow> error + int) \<Rightarrow> string \<Rightarrow> error + int" where
  "ParseDuration parseUnits orig =
     (let signed = (orig \<noteq> '''' \<and> (hd orig = CHR ''-'' \<or> hd orig = CHR ''+''));
          neg = (signed \<and> hd orig = CHR ''-'');
          s = (if signed then tl orig else orig)
      in if s = ''0'' then Inr 0
         else if s = '''' then Inl (InvalidDuration orig)
         else parseUnits neg s orig)"

section \<open>\<open>sort.Slice\<close> of the Go standard library\<close>

text \<open>
  \<open>sort.Slice\<close> (Go 1.19 and later) runs the pattern-defeating quicksort
  \<open>pdqsort_func\<close> on the slice, reading it through \<open>Less(i, j)\<close> and permuting it
  through \<open>Swap(i, j)\<close>. The comparison \<open>lessf\<close> takes the two elements and may panic;
  its error ends the sort. Indices are Go \<open>int\<close>s. Ranges of at most 12 elements are
  sorted by insertion sort.
\<close>

definition Swap :: "'a list \<Rightarrow> int \<Rightarrow> int \<Rightarrow> 'a list" where
  "Swap xs i j = xs[nat i := xs ! nat j, nat j := xs ! nat i]"

definition Less :: "('a \<Rightarrow> 'a \<Rightarrow> error + bool) \<Rightarrow> 'a list \<Rightarrow> int \<Rightarrow> int \<Rightarrow> error + bool" where
  "Less lessf xs i j = lessf (xs ! nat i) (xs ! nat j)"

text \<open>\<open>insertionSort_func\<close>: the inner loop moves \<open>data[j]\<close> left while it is less
  than its left neighbour; the outer loop runs \<open>i\<close> from \<open>a + 1\<close> to \<open>b\<close>.\<close>

function insertionSort_inner ::
  "('a \<Rightarrow> 'a \<Rightarrow> error + bool) \<Rightarrow> 'a list \<Rightarrow> int \<Rightarrow> int \<Rightarrow> error + 'a list" where
  "insertionSort_inner lessf xs a j =
     (if j > a then
        (case Less lessf xs j (j - 1) of
           Inl e \<Rightarrow> Inl e
         | Inr lt \<Rightarrow>
             if lt then insertionSort_inner lessf (Swap xs j (j - 1)) a (j - 1)
             else Inr xs)
      else Inr xs)"
  by pat_completeness auto
termination
  by (relation "measure (\<lambda>(lessf, xs, a, j). nat (j - a))") auto

declare insertionSort_inner.simps [simp del]

function insertionSort_loop ::
  "('a \<Rightarrow> 'a \<Rightarrow> error + bool) \<Rightarrow> 'a list \<Rightarrow> int \<Rightarrow> int \<Rightarrow> int \<Rightarrow> error + 'a list" where
  "insertionSort_loop lessf xs a b i =
     (if i < b then
        (case insertionSort_inner lessf xs a i of
           Inl e \<Rightarrow> Inl e
         | Inr xs' \<Rightarrow> insertionSort_loop lessf xs' a b (i + 1))
      else Inr xs)"
  by pat_completeness auto
termination
  by (relation "measure (\<lambda>(lessf, xs, a, b, i). nat (b - i))") auto

declare insertionSort_loop.simps [simp del]

definition insertionSort_func ::
  "('a \<Rightarrow> 'a \<Rightarrow> error + bool) \<Rightarrow> 'a list \<Rightarrow> int \<Rightarrow> int \<Rightarrow> error + 'a list" where
  "insertionSort_func lessf xs a b = insertionSort_loop lessf xs a b (a + 1)"

text \<open>
  \<open>heapSort_func\<close>, the fallback when the recursion limit is used up. \<open>siftDown_func\<close>
  is never called with a negative root; the test for it only makes the definition
  total.
\<close>

function siftDown_func ::
  "('a \<Rightarrow> 'a \<Rightarrow> error + bool) \<Rightarrow> 'a list \<Rightarrow> int \<Rightarrow> int \<Rightarrow> int \<Rightarrow> error + 'a list" where
  "siftDown_func lessf xs root hi first =
     (if 2 * root + 1 \<ge> hi \<or> root < 0 then Inr xs
      else
        case (if 2 * root + 1 + 1 < hi
              then Less lessf xs (first + (2 * root + 1)) (first + (2 * root + 1) + 1)
              else Inr False) of
          Inl e \<Rightarrow> Inl e
        | Inr lt \<Rightarrow>
            (let child = (if lt then 2 * root + 1 + 1 else 2 * root + 1) in
             case Less lessf xs (first + root) (first + child) of
               Inl e \<Rightarrow> Inl e
             | Inr lt2 \<Rightarrow>
                 if \<not> lt2 then Inr xs
                 else siftDown_func lessf (Swap xs (first + root) (first + child)) child hi first))"
  by pat_completeness auto
termination
  by (relation "measure (\<lambda>(lessf, xs, root, hi, first). nat (hi - root))")
     (auto split: if_splits)

declare siftDown_func.simps [simp del]

function heapSort_build ::
  "('a \<Rightarrow> 'a \<Rightarrow> error + bool) \<Rightarrow> 'a list \<Rightarrow> int \<Rightarrow> int \<Rightarrow> int \<Rightarrow> error + 'a list" where
  "heapSort_build lessf xs hi first i =
     (if i \<ge> 0 then
        (case siftDown_func lessf xs i hi first of
           Inl e \<Rightarrow> Inl e
         | Inr xs' \<Rightarrow> heapSort_build lessf xs' hi first (i - 1))
      else Inr xs)"
  by pat_completeness auto
termination
  by (relation "measure (\<lambda>(lessf, xs, hi, first, i). nat (i + 1))") auto

declare heapSort_build.simps [simp del]

function heapSort_pop ::
  "('a \<Rightarrow> 'a \<Rightarrow> error + bool) \<Rightarrow> 'a list \<Rightarrow> int \<Rightarrow> int \<Rightarrow> error + 'a list" where
  "heapSort_pop lessf xs first i =
     (if i \<ge> 0 then
        (case siftDown_func lessf (Swap xs first (first + i)) 0 i first of
           Inl e \<Rightarrow> Inl e
         | Inr xs' \<Rightarrow> heapSort_pop lessf xs' first (i - 1))
      else Inr xs)"
  by pat_completeness auto
termination
  by (relation "measure (\<lambda>(lessf, xs, first, i). nat (i + 1))") auto

declare heapSort_pop.simps [simp del]

definition heapSort_func ::
  "('a \<Rightarrow> 'a \<Rightarrow> error + bool) \<Rightarrow> 'a list \<Rightarrow> int \<Rightarrow> int \<Rightarrow> error + 'a list" where
  "heapSort_func lessf xs a b =
     (let first = a; hi = b - a in
      case heapSort_build lessf xs hi first ((hi - 1) sdiv 2) of
        Inl e \<Rightarrow> Inl e
      | Inr xs' \<Rightarrow> heapSort_pop lessf xs' first (hi - 1))"

text \<open>
  \<open>partition_func\<close> moves the pivot to \<open>data[a]\<close>, scans from both ends and swaps
  the pairs that are out of place; it returns the pivot's final index and whether the
  range was already partitioned. The two scans only move inwards, which is what the
  termination of the loop rests on.
\<close>

function partition_scanUp ::
  "('a \<Rightarrow> 'a \<Rightarrow> error + bool) \<Rightarrow> 'a list \<Rightarrow> int \<Rightarrow> int \<Rightarrow> int \<Rightarrow> error + int" where
  "partition_scanUp lessf xs a i j =
     (if i \<le> j then
        (case Less lessf xs i a of
           Inl e \<Rightarrow> Inl e
         | Inr lt \<Rightarrow> if lt then partition_scanUp lessf xs a (i + 1) j else Inr i)
      else Inr i)"
  by pat_completeness auto
termination
  by (relation "measure (\<lambda>(lessf, xs, a, i, j). nat (j + 1 - i))") auto

declare partition_scanUp.simps [simp del]

function partition_scanDown ::
  "('a \<Rightarrow> 'a \<Rightarrow> error + bool) \<Rightarrow> 'a list \<Rightarrow> int \<Rightarrow> int \<Rightarrow> int \<Rightarrow> error + int" where
  "partition_scanDown lessf xs a i j =
     (if i \<le> j then
        (case Less lessf xs j a of
           Inl e \<Rightarrow> Inl e
         | Inr lt \<Rightarrow> if \<not> lt then partition_scanDown lessf xs a i (j - 1) else Inr j)
      else Inr j)"
  by pat_completeness auto
termination
  by (relation "measure (\<lambda>(lessf, xs, a, i, j). nat (j + 1 - i))") auto

declare partition_scanDown.simps [simp del]

lemma partition_scanUp_mono: "partition_scanUp lessf xs a i j = Inr i' \<Longrightarrow> i \<le> i'"
proof (induction lessf xs a i j rule: partition_scanUp.induct)
  case (1 lessf xs a i j)
  from "1.prems" have "(if i \<le> j then
        (case Less lessf xs i a of
           Inl e \<Rightarrow> Inl e
         | Inr lt \<Rightarrow> if lt then partition_scanUp lessf xs a (i + 1) j else Inr i)
      else Inr i) = Inr i'"
    by (simp only: partition_scanUp.simps [of lessf xs a i j])
  then show ?case using "1.IH" by (fastforce split: if_splits sum.splits)
qed

lemma partition_scanDown_mono: "partition_scanDown lessf xs a i j = Inr j' \<Longrightarrow> j' \<le> j"
proof (induction lessf xs a i j rule: partition_scanDown.induct)
  case (1 lessf xs a i j)
  from "1.prems" have "(if i \<le> j then
        (case Less lessf xs j a of
           Inl e \<Rightarrow> Inl e
         | Inr lt \<Rightarrow> if \<not> lt then partition_scanDown lessf xs a i (j - 1) else Inr j)
      else Inr j) = Inr j'"
    by (simp only: partition_scanDown.simps [of lessf xs a i j])
  then show ?case using "1.IH" by (fastforce split: if_splits sum.splits)
qed

function partition_loop ::
  "('a \<Rightarrow> 'a \<Rightarrow> error + bool) \<Rightarrow> 'a list \<Rightarrow> int \<Rightarrow> int \<Rightarrow> int \<Rightarrow> error + ('a list \<times> int)" where
  "partition_loop lessf xs a i j =
     (case partition_scanUp lessf xs a i j of
        Inl e \<Rightarrow> Inl e
      | Inr i' \<Rightarrow>
          (case partition_scanDown lessf xs a i' j of
             Inl e \<Rightarrow> Inl e
           | Inr j' \<Rightarrow>
               if i' > j' then Inr (xs, j')
               else partition_loop lessf (Swap xs i' j') a (i' + 1) (j' - 1)))"
  by pat_completeness auto
termination
proof (relation "measure (\<lambda>(lessf, xs, a, i, j). nat (j + 1 - i))", goal_cases)
  case 1
  then show ?case by simp
next
  case (2 lessf xs a i j i' j')
  have "i \<le> i'" using 2(1) by (rule partition_scanUp_mono)
  moreover have "j' \<le> j" using 2(2) by (rule partition_scanDown_mono)
  ultimately show ?case using 2(3) by (simp only: in_measure split_conv)
qed

declare partition_loop.simps [simp del]

definition partition_func ::
  "('a \<Rightarrow> 'a \<Rightarrow> error + bool) \<Rightarrow> 'a list \<Rightarrow> int \<Rightarrow> int \<Rightarrow> int \<Rightarrow>
   error + ('a list \<times> int \<times> bool)" where
  "partition_func lessf xs a b pivot =
     (let xs = Swap xs a pivot in
      case partition_scanUp lessf xs a (a + 1) (b - 1) of
        Inl e \<Rightarrow> Inl e
      | Inr i \<Rightarrow>
          (case partition_scanDown lessf xs a i (b - 1) of
             Inl e \<Rightarrow> Inl e
           | Inr j \<Rightarrow>
               if i > j then Inr (Swap xs j a, j, True)
               else
                 (case partition_loop lessf (Swap xs i j) a (i + 1) (j - 1) of
                    Inl e \<Rightarrow> Inl e
                  | Inr (xs', j') \<Rightarrow> Inr (Swap xs' j' a, j', False))))"

text \<open>\<open>partitionEqual_func\<close>: elements equal to the pivot first, greater ones after
  them; it returns the index of the first greater element.\<close>

function partitionEqual_scanUp ::
  "('a \<Rightarrow> 'a \<Rightarrow> error + bool) \<Rightarrow> 'a list \<Rightarrow> int \<Rightarrow> int \<Rightarrow> int \<Rightarrow> error + int" where
  "partitionEqual_scanUp lessf xs a i j =
     (if i \<le> j then
        (case Less lessf xs a i of
           Inl e \<Rightarrow> Inl e
         | Inr lt \<Rightarrow> if \<not> lt then partitionEqual_scanUp lessf xs a (i + 1) j else Inr i)
      else Inr i)"
  by pat_completeness auto
termination
  by (relation "measure (\<lambda>(lessf, xs, a, i, j). nat (j + 1 - i))") auto

declare partitionEqual_scanUp.simps [simp del]

function partitionEqual_scanDown ::
  "('a \<Rightarrow> 'a \<Rightarrow> error + bool) \<Rightarrow> 'a list \<Rightarrow> int \<Rightarrow> int \<Rightarrow> int \<Rightarrow> error + int" where
  "partitionEqual_scanDown lessf xs a i j =
     (if i \<le> j then
        (case Less lessf xs a j of
           Inl e \<Rightarrow> Inl e
         | Inr lt \<Rightarrow> if lt then partitionEqual_scanDown lessf xs a i (j - 1) else Inr j)
      else Inr j)"
  by pat_completeness auto
termination
  by (relation "measure (\<lambda>(lessf, xs, a, i, j). nat (j + 1 - i))") auto

declare partitionEqual_scanDown.simps [simp del]

lemma partitionEqual_scanUp_mono: "partitionEqual_scanUp lessf xs a i j = Inr i' \<Longrightarrow> i \<le> i'"
proof (induction lessf xs a i j rule: partitionEqual_scanUp.induct)
  case (1 lessf xs a i j)
  from "1.prems" have "(if i \<le> j then
        (case Less lessf xs a i of
           Inl e \<Rightarrow> Inl e
         | Inr lt \<Rightarrow> if \<not> lt then partitionEqual_scanUp lessf xs a (i + 1) j else Inr i)
      else Inr i) = Inr i'"
    by (simp only: partitionEqual_scanUp.simps [of lessf xs a i j])
  then show ?case using "1.IH" by (fastforce split: if_splits sum.splits)
qed

lemma partitionEqual_scanDown_mono: "partitionEqual_scanDown lessf xs a i j = Inr j' \<Longrightarrow> j' \<le> j"
proof (induction lessf xs a i j rule: partitionEqual_scanDown.induct)
  case (1 lessf xs a i j)
  from "1.prems" have "(if i \<le> j then
        (case Less lessf xs a j of
           Inl e \<Rightarrow> Inl e
         | Inr lt \<Rightarrow> if lt then partitionEqual_scanDown lessf xs a i (j - 1) else Inr j)
      else Inr j) = Inr j'"
    by (simp only: partitionEqual_scanDown.simps [of lessf xs a i j])
  then show ?case using "1.IH" by (fastforce split: if_splits sum.splits)
qed

function partitionEqual_loop ::
  "('a \<Rightarrow> 'a \<Rightarrow> error + bool) \<Rightarrow> 'a list \<Rightarrow> int \<Rightarrow> int \<Rightarrow> int \<Rightarrow> error + ('a list \<times> int)" where
  "partitionEqual_loop lessf xs a i j =
     (case partitionEqual_scanUp lessf xs a i j of
        Inl e \<Rightarrow> Inl e
      | Inr i' \<Rightarrow>
          (case partitionEqual_scanDown lessf xs a i' j of
             Inl e \<Rightarrow> Inl e
           | Inr j' \<Rightarrow>
               if i' > j' then Inr (xs, i')
               else partitionEqual_loop lessf (Swap xs i' j') a (i' + 1) (j' - 1)))"
  by pat_completeness auto
termination
proof (relation "measure (\<lambda>(lessf, xs, a, i, j). nat (j + 1 - i))", goal_cases)
  case 1
  then show ?case by simp
next
  case (2 lessf xs a i j i' j')
  have "i \<le> i'" using 2(1) by (rule partitionEqual_scanUp_mono)
  moreover have "j' \<le> j" using 2(2) by (rule partitionEqual_scanDown_mono)
  ultimately show ?case using 2(3) by (simp only: in_measure split_conv)
qed

declare partitionEqual_loop.simps [simp del]

definition partitionEqual_func ::
  "('a \<Rightarrow> 'a \<Rightarrow> error + bool) \<Rightarrow> 'a list \<Rightarrow> int \<Rightarrow> int \<Rightarrow> int \<Rightarrow> error + ('a list \<times> int)" where
  "partitionEqual_func lessf xs a b pivot =
     partitionEqual_loop lessf (Swap xs a pivot) a (a + 1) (b - 1)"

text \<open>
  \<open>partialInsertionSort_func\<close>: at most 5 out-of-order pairs are repaired, and none
  when the range has fewer than 50 elements; it returns whether the range is sorted.
\<close>

function partialInsertionSort_scan ::
  "('a \<Rightarrow> 'a \<Rightarrow> error + bool) \<Rightarrow> 'a list \<Rightarrow> int \<Rightarrow> int \<Rightarrow> error + int" where
  "partialInsertionSort_scan lessf xs i b =
     (if i < b then
        (case Less lessf xs i (i - 1) of
           Inl e \<Rightarrow> Inl e
         | Inr lt \<Rightarrow> if \<not> lt then partialInsertionSort_scan lessf xs (i + 1) b else Inr i)
      else Inr i)"
  by pat_completeness auto
termination
  by (relation "measure (\<lambda>(lessf, xs, i, b). nat (b - i))") auto

declare partialInsertionSort_scan.simps [simp del]

function partialInsertionSort_shiftLeft ::
  "('a \<Rightarrow> 'a \<Rightarrow> error + bool) \<Rightarrow> 'a list \<Rightarrow> int \<Rightarrow> error + 'a list" where
  "partialInsertionSort_shiftLeft lessf xs j =
     (if j \<ge> 1 then
        (case Less lessf xs j (j - 1) of
           Inl e \<Rightarrow> Inl e
         | Inr lt \<Rightarrow>
             if \<not> lt then Inr xs
             else partialInsertionSort_shiftLeft lessf (Swap xs j (j - 1)) (j - 1))
      else Inr xs)"
  by pat_completeness auto
termination
  by (relation "measure (\<lambda>(lessf, xs, j). nat j)") auto

declare partialInsertionSort_shiftLeft.simps [simp del]

function partialInsertionSort_shiftRight ::
  "('a \<Rightarrow> 'a \<Rightarrow> error + bool) \<Rightarrow> 'a list \<Rightarrow> int \<Rightarrow> int \<Rightarrow> error + 'a list" where
  "partialInsertionSort_shiftRight lessf xs j b =
     (if j < b then
        (case Less lessf xs j (j - 1) of
           Inl e \<Rightarrow> Inl e
         | Inr lt \<Rightarrow>
             if \<not> lt then Inr xs
             else partialInsertionSort_shiftRight lessf (Swap xs j (j - 1)) (j + 1) b)
      else Inr xs)"
  by pat_completeness auto
termination
  by (relation "measure (\<lambda>(lessf, xs, j, b). nat (b - j))") auto

declare partialInsertionSort_shiftRight.simps [simp del]

fun partialInsertionSort_steps ::
  "('a \<Rightarrow> 'a \<Rightarrow> error + bool) \<Rightarrow> 'a list \<Rightarrow> int \<Rightarrow> int \<Rightarrow> int \<Rightarrow> nat \<Rightarrow>
   error + ('a list \<times> bool)" where
  "partialInsertionSort_steps lessf xs a b i 0 = Inr (xs, False)"
| "partialInsertionSort_steps lessf xs a b i (Suc steps) =
     (case partialInsertionSort_scan lessf xs i b of
        Inl e \<Rightarrow> Inl e
      | Inr i \<Rightarrow>
          if i = b then Inr (xs, True)
          else if b - a < 50 then Inr (xs, False)
          else
            (case (if i - a \<ge> 2
                   then partialInsertionSort_shiftLeft lessf (Swap xs i (i - 1)) (i - 1)
                   else Inr (Swap xs i (i - 1))) of
               Inl e \<Rightarrow> Inl e
             | Inr xs \<Rightarrow>
                 (case (if b - i \<ge> 2
                        then partialInsertionSort_shiftRight lessf xs (i + 1) b
                        else Inr xs) of
                    Inl e \<Rightarrow> Inl e
                  | Inr xs \<Rightarrow> partialInsertionSort_steps lessf xs a b i steps)))"

definition partialInsertionSort_func ::
  "('a \<Rightarrow> 'a \<Rightarrow> error + bool) \<Rightarrow> 'a list \<Rightarrow> int \<Rightarrow> int \<Rightarrow> error + ('a list \<times> bool)" where
  "partialInsertionSort_func lessf xs a b = partialInsertionSort_steps lessf xs a b (a + 1) 5"

text \<open>
  \<open>breakPatterns_func\<close> swaps three elements around the middle with pseudo-random
  ones. \<open>Next\<close> is the step of its xorshift generator on 64-bit values, a parameter
  of the model; the generator is seeded with the length, and its output is reduced to
  the range by the next power of two (\<open>bits_Len\<close> is \<open>bits.Len\<close>). The three elements
  are at \<open>idx - 1 + i\<close> for \<open>i = 0, 1, 2\<close>, where \<open>idx\<close> is \<open>a + (length/4)*2 - 1\<close>;
  their partners are at \<open>a + other\<close>. The sort calls it on a range of more than 12
  elements, after a partition that was not balanced.
\<close>

fun bits_Len :: "nat \<Rightarrow> nat" where
  "bits_Len n = (if n = 0 then 0 else Suc (bits_Len (n div 2)))"

declare bits_Len.simps [simp del]

fun breakPatterns_swaps ::
  "(nat \<Rightarrow> nat) \<Rightarrow> 'a list \<Rightarrow> int \<Rightarrow> int \<Rightarrow> int \<Rightarrow> nat \<Rightarrow> int list \<Rightarrow> 'a list" where
  "breakPatterns_swaps Next xs a idx n random [] = xs"
| "breakPatterns_swaps Next xs a idx n random (i # rest) =
     (let random = Next random;
          other = int (random mod 2 ^ bits_Len (nat n));
          other = (if other \<ge> n then other - n else other)
      in breakPatterns_swaps Next (Swap xs (idx - 1 + i) (a + other)) a idx n random rest)"

definition breakPatterns_func :: "(nat \<Rightarrow> nat) \<Rightarrow> 'a list \<Rightarrow> int \<Rightarrow> int \<Rightarrow> 'a list" where
  "breakPatterns_func Next xs a b =
     (let n = b - a in
      if n \<ge> 8
      then breakPatterns_swaps Next xs a (a + (n sdiv 4) * 2 - 1) n (nat n)
             [0, 1, 2]
      else xs)"

text \<open>
  \<open>choosePivot_func\<close>: a static pivot below 8 elements, the median of three below
  50, Tukey's ninther otherwise; the number of swaps the medians needed tells whether
  the range looks increasing or decreasing.
\<close>

datatype sortedHint = unknownHint | increasingHint | decreasingHint

definition order2_func ::
  "('a \<Rightarrow> 'a \<Rightarrow> error + bool) \<Rightarrow> 'a list \<Rightarrow> int \<Rightarrow> int \<Rightarrow> int \<Rightarrow> error + (int \<times> int \<times> int)" where
  "order2_func lessf xs a b swaps =
     (case Less lessf xs b a of
        Inl e \<Rightarrow> Inl e
      | Inr lt \<Rightarrow> if lt then Inr (b, a, swaps + 1) else Inr (a, b, swaps))"

definition median_func ::
  "('a \<Rightarrow> 'a \<Rightarrow> error + bool) \<Rightarrow> 'a list \<Rightarrow> int \<Rightarrow> int \<Rightarrow> int \<Rightarrow> int \<Rightarrow> error + (int \<times> int)" where
  "median_func lessf xs a b c swaps =
     (case order2_func lessf xs a b swaps of
        Inl e \<Rightarrow> Inl e
      | Inr (a, b, swaps) \<Rightarrow>
          (case order2_func lessf xs b c swaps of
             Inl e \<Rightarrow> Inl e
           | Inr (b, c, swaps) \<Rightarrow>
               (case order2_func lessf xs a b swaps of
                  Inl e \<Rightarrow> Inl e
                | Inr (a, b, swaps) \<Rightarrow> Inr (b, swaps))))"

definition medianAdjacent_func ::
  "('a \<Rightarrow> 'a \<Rightarrow> error + bool) \<Rightarrow> 'a list \<Rightarrow> int \<Rightarrow> int \<Rightarrow> error + (int \<times> int)" where
  "medianAdjacent_func lessf xs a swaps = median_func lessf xs (a - 1) a (a + 1) swaps"

definition choosePivot_func ::
  "('a \<Rightarrow> 'a \<Rightarrow> error + bool) \<Rightarrow> 'a list \<Rightarrow> int \<Rightarrow> int \<Rightarrow> error + (int \<times> sortedHint)" where
  "choosePivot_func lessf xs a b =
     (let l = b - a;
          i = a + l sdiv 4 * 1;
          j = a + l sdiv 4 * 2;
          k = a + l sdiv 4 * 3
      in case
           (if l \<ge> 8 then
              (case
                 (if l \<ge> 50 then
                    (case medianAdjacent_func lessf xs i 0 of
                       Inl e \<Rightarrow> Inl e
                     | Inr (i, swaps) \<Rightarrow>
                         (case medianAdjacent_func lessf xs j swaps of
                            Inl e \<Rightarrow> Inl e
                          | Inr (j, swaps) \<Rightarrow>
                              (case medianAdjacent_func lessf xs k swaps of
                                 Inl e \<Rightarrow> Inl e
                               | Inr (k, swaps) \<Rightarrow> Inr (i, j, k, swaps))))
                  else Inr (i, j, k, 0)) of
                 Inl e \<Rightarrow> Inl e
               | Inr (i, j, k, swaps) \<Rightarrow> median_func lessf xs i j k swaps)
            else Inr (j, 0)) of
           Inl e \<Rightarrow> Inl e
         | Inr (j, swaps) \<Rightarrow>
             Inr (j, if swaps = 0 then increasingHint
                     else if swaps = 4 * 3 then decreasingHint
                     else unknownHint))"

function reverseRange_loop :: "'a list \<Rightarrow> int \<Rightarrow> int \<Rightarrow> 'a list" where
  "reverseRange_loop xs i j =
     (if i < j then reverseRange_loop (Swap xs i j) (i + 1) (j - 1) else xs)"
  by pat_completeness auto
termination
  by (relation "measure (\<lambda>(xs, i, j). nat (j - i))") auto

declare reverseRange_loop.simps [simp del]

definition reverseRange_func :: "'a list \<Rightarrow> int \<Rightarrow> int \<Rightarrow> 'a list" where
  "reverseRange_func xs a b = reverseRange_loop xs a (b - 1)"

text \<open>
  \<open>pdqsort_func\<close>. An iteration of its loop and a recursive call both take one unit
  of fuel; every one of them works on a strictly shorter range, and \<open>sort_Slice\<close>
  starts with more fuel than the slice has elements.
\<close>

fun pdqsort_func ::
  "nat \<Rightarrow> (nat \<Rightarrow> nat) \<Rightarrow> ('a \<Rightarrow> 'a \<Rightarrow> error + bool) \<Rightarrow> 'a list \<Rightarrow> int \<Rightarrow> int \<Rightarrow> int \<Rightarrow>
   bool \<Rightarrow> bool \<Rightarrow> error + 'a list" where
  "pdqsort_func 0 Next lessf xs a b limit wasBalanced wasPartitioned = Inl FuelExhausted"
| "pdqsort_func (Suc fuel) Next lessf xs a b limit wasBalanced wasPartitioned =
     (if b - a \<le> 12 then insertionSort_func lessf xs a b
      else if limit = 0 then heapSort_func lessf xs a b
      else
        (let xs = (if \<not> wasBalanced then breakPatterns_func Next xs a b else xs);
             limit = (if \<not> wasBalanced then limit - 1 else limit)
         in case choosePivot_func lessf xs a b of
              Inl e \<Rightarrow> Inl e
            | Inr (pivot, hint) \<Rightarrow>
                (let xs = (if hint = decreasingHint then reverseRange_func xs a b else xs);
                     pivot = (if hint = decreasingHint then (b - 1) - (pivot - a) else pivot);
                     hint = (if hint = decreasingHint then increasingHint else hint)
                 in case (if wasBalanced \<and> wasPartitioned \<and> hint = increasingHint
                          then partialInsertionSort_func lessf xs a b
                          else Inr (xs, False)) of
                      Inl e \<Rightarrow> Inl e
                    | Inr (xs, isSorted) \<Rightarrow>
                        if isSorted then Inr xs
                        else
                          (case (if a > 0 then Less lessf xs (a - 1) pivot else Inr True) of
                             Inl e \<Rightarrow> Inl e
                           | Inr lt \<Rightarrow>
                               if a > 0 \<and> \<not> lt then
                                 (case partitionEqual_func lessf xs a b pivot of
                                    Inl e \<Rightarrow> Inl e
                                  | Inr (xs, mid) \<Rightarrow>
                                      pdqsort_func fuel Next lessf xs mid b limit
                                        wasBalanced wasPartitioned)
                               else
                                 (case partition_func lessf xs a b pivot of
                                    Inl e \<Rightarrow> Inl e
                                  | Inr (xs, mid, alreadyPartitioned) \<Rightarrow>
                                      if mid - a < b - mid then
                                        (case pdqsort_func fuel Next lessf xs a mid limit
                                                True True of
                                           Inl e \<Rightarrow> Inl e
                                         | Inr xs \<Rightarrow>
                                             pdqsort_func fuel Next lessf xs (mid + 1) b limit
                                               (mid - a \<ge> (b - a) sdiv 8) alreadyPartitioned)
                                      else
                                        (case pdqsort_func fuel Next lessf xs (mid + 1) b limit
                                                True True of
                                           Inl e \<Rightarrow> Inl e
                                         | Inr xs \<Rightarrow>
                                             pdqsort_func fuel Next lessf xs a mid limit
                                               (b - mid \<ge> (b - a) sdiv 8)
                                               alreadyPartitioned))))))"

declare pdqsort_func.simps [simp del]

definition sort_Slice ::
  "(nat \<Rightarrow> nat) \<Rightarrow> ('a \<Rightarrow> 'a \<Rightarrow> error + bool) \<Rightarrow> 'a list \<Rightarrow> error + 'a list" where
  "sort_Slice Next lessf xs =
     pdqsort_func (Suc (length xs)) Next lessf xs 0 (len xs) (int (bits_Len (length xs)))
       True True"

section \<open>Viewport Manager\<close>

text \<open>
  The loop of \<open>CalculateMaxColumns\<close>: \<open>i\<close> is the index of the column at the head of
  the remaining list; columns left of the offset are skipped, the loop breaks at the
  first column whose running total exceeds the width.
\<close>

fun CalculateMaxColumns_loop ::
  "int \<Rightarrow> int \<Rightarrow> int \<Rightarrow> int \<Rightarrow> int \<Rightarrow> Column list \<Rightarrow> int" where
  "CalculateMaxColumns_loop off w i totalWidth count [] = count"
| "CalculateMaxColumns_loop off w i totalWidth count (col # rest) =
     (if i < off then CalculateMaxColumns_loop off w (i + 1) totalWidth count rest
      else if totalWidth + (col_Width col + 2) > w then count
      else CalculateMaxColumns_loop off w (i + 1)
             (totalWidth + (col_Width col + 2)) (count + 1) rest)"

definition CalculateMaxColumns :: "TableModel \<Rightarrow> TableModel" where
  "CalculateMaxColumns m =
     (if len (TableColumns m) = 0 then m\<lparr>MaxColumns := 0\<rparr>
      else
        let count = CalculateMaxColumns_loop (ScrollOffset m) (Width m) 0 0 0
                      (TableColumns m);
            count = (if count = 0 \<and> len (TableColumns m) > ScrollOffset m
                     then 1 else count)
        in m\<lparr>MaxColumns := count\<rparr>)"

text \<open>The slice expression \<open>s[lo:hi]\<close>: Go panics unless \<open>0 \<le> lo \<le> hi \<le> len(s)\<close>.\<close>

definition slice :: "'a list \<Rightarrow> int \<Rightarrow> int \<Rightarrow> error + 'a list" where
  "slice s lo hi =
     (if 0 \<le> lo \<and> lo \<le> hi \<and> hi \<le> len s
      then Inr (take (nat (hi - lo)) (drop (nat lo) s))
      else Inl SliceBoundsOutOfRange)"

text \<open>
  One row of the visible window: a row that does not reach the scroll offset stays the
  zero value (an empty row); otherwise it has one cell per visible column, the empty
  string where the row is too short.
\<close>

definition visibleRow :: "int \<Rightarrow> nat \<Rightarrow> Row \<Rightarrow> Row" where
  "visibleRow off n row =
     (if off < len row
      then map (\<lambda>j. let colIdx = off + int j in
                     if colIdx < len row then row ! nat colIdx else '''') [0..<n]
      else [])"

text \<open>
  The cursor refresh at the end of \<open>UpdateVisibleColumns\<close>: one step away from the
  nearest boundary and back, through the widget's own key handling.
\<close>

definition refreshCursor :: "table_Model \<Rightarrow> table_Model" where
  "refreshCursor t =
     (if len (rows t) > 0 then
        (if cursor t = 0 then table_Update KeyUp (table_Update KeyDown t)
         else if cursor t = len (rows t) - 1
           then table_Update KeyDown (table_Update KeyUp t)
         else table_Update KeyDown (table_Update KeyUp t))
      else t)"

text \<open>
  \<open>UpdateVisibleColumns\<close>, in the order of the source: the scroll offset is clamped
  into the schema, the column count is recomputed, the offset is pulled left when the
  window would overshoot the right edge, and the widget is rebuilt from the window.
\<close>

definition clampScrollOffset :: "TableModel \<Rightarrow> TableModel" where
  "clampScrollOffset m =
     (let m1 = (if ScrollOffset m < 0 then m\<lparr>ScrollOffset := 0\<rparr> else m)
      in if ScrollOffset m1 \<ge> len (TableColumns m1)
         then m1\<lparr>ScrollOffset := len (TableColumns m1) - 1\<rparr> else m1)"

definition adjustScrollOffset :: "TableModel \<Rightarrow> TableModel" where
  "adjustScrollOffset m =
     (if ScrollOffset m > 0 \<and> ScrollOffset m + MaxColumns m > len (TableColumns m)
      then
        (let newOffset = len (TableColumns m) - MaxColumns m in
         m\<lparr>ScrollOffset := (if newOffset < 0 then 0 else newOffset)\<rparr>)
      else m)"

definition rebuildTable :: "TableModel \<Rightarrow> error + TableModel" where
  "rebuildTable m =
     (let endIdx = ScrollOffset m + MaxColumns m;
          endIdx = (if endIdx > len (TableColumns m) then len (TableColumns m)
                    else endIdx);
          currentCursor = cursor (Table m);
          isFocused = focus (Table m);
          tableHeight = Height m
      in case slice (TableColumns m) (ScrollOffset m) endIdx of
           Inl e \<Rightarrow> Inl e
         | Inr visibleColumns \<Rightarrow>
             let visibleRows =
                   map (visibleRow (ScrollOffset m) (length visibleColumns))
                     (OriginalRows m)
             in case table_New visibleColumns visibleRows isFocused tableHeight of
                  Inl e \<Rightarrow> Inl e
                | Inr newTable \<Rightarrow>
                    let newTable =
                          (if len visibleRows > 0 then
                             SetCursor
                               (if currentCursor < 0 then 0
                                else if currentCursor \<ge> len visibleRows
                                  then len visibleRows - 1
                                else currentCursor) newTable
                           else newTable)
                    in Inr (m\<lparr>Table := refreshCursor newTable\<rparr>))"

definition UpdateVisibleColumns :: "TableModel \<Rightarrow> error + TableModel" where
  "UpdateVisibleColumns m =
     (if len (TableColumns m) = 0 then Inr m
      else rebuildTable (adjustScrollOffset (CalculateMaxColumns (clampScrollOffset m))))"

section \<open>Cursor Consistency Guard\<close>

definition EnsureCursorVisible :: "TableModel \<Rightarrow> TableModel" where
  "EnsureCursorVisible m =
     (let c = cursor (Table m); rowCount = len (rows (Table m)) in
      if rowCount = 0 then m
      else if c < 0 then m\<lparr>Table := SetCursor 0 (Table m)\<rparr>
      else if c \<ge> rowCount then m\<lparr>Table := SetCursor (rowCount - 1) (Table m)\<rparr>
      else if length (SelectedRow (Table m)) = 0 then
        (let m1 = m\<lparr>Table := SetCursor c (Table m)\<rparr> in
         if length (SelectedRow (Table m1)) = 0 \<and> rowCount > 0
         then m1\<lparr>Table := SetCursor 0 (Table m1)\<rparr> else m1)
      else m)"

text \<open>
  \<open>NewTableModel\<close>: no sort column (\<open>-1\<close>), ascending order, every other field the
  zero value of its type.
\<close>

definition NewTableModel :: TableModel where
  "NewTableModel =
     \<lparr>Table = \<lparr>cols = [], rows = [], cursor = 0, focus = False\<rparr>,
      Title = '''', RowCount = 0, QueryDuration = 0, ShowHelp = False,
      SortColumn = - 1, SortAsc = True, OriginalRows = [], FilteredRows = [],
      AllRows = [], FilterText = '''', Filtering = False, StatusMsg = '''',
      TableColumns = [], ScrollOffset = 0, MaxColumns = 0, Width = 0, Height = 0,
      TextInput = ''''\<rparr>"


section \<open>Interaction Controller: the scroll keys\<close>

text \<open>
  \<open>Update\<close> for the key messages \<open>up\<close>, \<open>down\<close>, \<open>left\<close>, \<open>right\<close>,
  \<open>shift+left\<close> (Home) and \<open>shift+right\<close> (End). While the filter text is edited
  these keys go to the text input, whose text they leave unchanged. Otherwise the four
  scroll cases save the cursor, set the scroll offset, rebuild the window, restore the
  cursor and run the cursor guard (\<open>scrollTo\<close> is that shared body); after the
  \<open>switch\<close> the message is forwarded to the widget and the guard runs again.
\<close>

definition scrollTo :: "int \<Rightarrow> TableModel \<Rightarrow> error + TableModel" where
  "scrollTo off m =
     (let currentCursor = cursor (Table m) in
      case UpdateVisibleColumns (m\<lparr>ScrollOffset := off\<rparr>) of
        Inl e \<Rightarrow> Inl e
      | Inr m' \<Rightarrow>
          Inr (EnsureCursorVisible (m'\<lparr>Table := SetCursor currentCursor (Table m')\<rparr>)))"

fun Update_key :: "KeyMsg \<Rightarrow> TableModel \<Rightarrow> error + TableModel" where
  "Update_key KeyLeft m =
     (if ScrollOffset m > 0 then scrollTo (ScrollOffset m - 1) m else Inr m)"
| "Update_key KeyRight m =
     (if ScrollOffset m < len (TableColumns m) - 1 then scrollTo (ScrollOffset m + 1) m
      else Inr m)"
| "Update_key KeyShiftRight m =
     (let maxScroll = len (TableColumns m) - 1;
          maxScroll = (if maxScroll < 0 then 0 else maxScroll)
      in if ScrollOffset m \<noteq> maxScroll then scrollTo maxScroll m else Inr m)"
| "Update_key KeyShiftLeft m =
     (if ScrollOffset m > 0 then scrollTo 0 m else Inr m)"
| "Update_key KeyUp m = Inr m"
| "Update_key KeyDown m = Inr m"

definition Update :: "KeyMsg \<Rightarrow> TableModel \<Rightarrow> error + TableModel" where
  "Update msg m =
     (if Filtering m then Inr m
      else case Update_key msg m of
             Inl e \<Rightarrow> Inl e
           | Inr m' \<Rightarrow> Inr (EnsureCursorVisible (m'\<lparr>Table := table_Update msg (Table m')\<rparr>)))"

text \<open>
  The case of the Filter key in \<open>Update\<close>, which starts the editing of the filter
  text: the baseline \<open>AllRows\<close> is taken from the active rows when it is empty, and the
  column at the scroll offset becomes the column to filter.
\<close>

definition Update_Filter :: "TableModel \<Rightarrow> TableModel" where
  "Update_Filter m =
     (let targetColumn = ScrollOffset m;
          m = m\<lparr>Filtering := True, FilterText := '''', TextInput := ''''\<rparr>;
          m = (if len (AllRows m) = 0 \<and> len (OriginalRows m) > 0
               then m\<lparr>AllRows := OriginalRows m\<rparr> else m)
      in m\<lparr>SortColumn := targetColumn\<rparr>)"

section \<open>Sort Engine\<close>

text \<open>
  The comparison closure of \<open>SortRows\<close> on two rows: both cells are read without a
  bounds check, then parsed by \<open>strconv.ParseFloat\<close>. \<open>ParseFloat\<close> (\<open>None\<close> when it
  returns an error) and \<open>flt\<close>, the order \<open><\<close> of \<open>float64\<close>, are parameters of the
  model. \<open>a > b\<close> is \<open>b < a\<close>.
\<close>

definition SortRows_less ::
  "(string \<Rightarrow> 'f option) \<Rightarrow> ('f \<Rightarrow> 'f \<Rightarrow> bool) \<Rightarrow> int \<Rightarrow> bool \<Rightarrow> Row \<Rightarrow> Row \<Rightarrow> error + bool" where
  "SortRows_less ParseFloat flt col asc ri rj =
     (case index ri col of
        Inl e \<Rightarrow> Inl e
      | Inr a \<Rightarrow>
          (case index rj col of
             Inl e \<Rightarrow> Inl e
           | Inr b \<Rightarrow>
               (case (ParseFloat a, ParseFloat b) of
                  (Some aNum, Some bNum) \<Rightarrow>
                    if asc then Inr (flt aNum bNum) else Inr (flt bNum aNum)
                | _ \<Rightarrow> if asc then Inr (a < b) else Inr (b < a))))"

definition SortRows ::
  "(nat \<Rightarrow> nat) \<Rightarrow> (string \<Rightarrow> 'f option) \<Rightarrow> ('f \<Rightarrow> 'f \<Rightarrow> bool) \<Rightarrow> TableModel \<Rightarrow>
   error + TableModel" where
  "SortRows Next ParseFloat flt m =
     (if SortColumn m < 0 then Inr m
      else
        case sort_Slice Next (SortRows_less ParseFloat flt (SortColumn m) (SortAsc m))
               (OriginalRows m) of
          Inl e \<Rightarrow> Inl e
        | Inr sortedRows \<Rightarrow> UpdateVisibleColumns (m\<lparr>OriginalRows := sortedRows\<rparr>))"

section \<open>Filter Engine\<close>

text \<open>
  The two status messages of \<open>ApplyFilter\<close>, as UTF-8 bytes: "all data restored", and
  the match summary with the column name and the number of matching rows.
\<close>

definition msgRestored :: string where
  "msgRestored =
     [CHR 0xE5, CHR 0xB7, CHR 0xB2, CHR 0xE6, CHR 0x81, CHR 0xA2, CHR 0xE5, CHR 0xA4,
      CHR 0x8D, CHR 0xE5, CHR 0x85, CHR 0xA8, CHR 0xE9, CHR 0x83, CHR 0xA8, CHR 0xE6,
      CHR 0x95, CHR 0xB0, CHR 0xE6, CHR 0x8D, CHR 0xAE]"

definition msgFilterResult :: "string \<Rightarrow> int \<Rightarrow> string" where
  "msgFilterResult columnName n =
     [CHR 0xE7, CHR 0xAD, CHR 0x9B, CHR 0xE9, CHR 0x80, CHR 0x89, CHR 0xE7, CHR 0xBB,
      CHR 0x93, CHR 0xE6, CHR 0x9E, CHR 0x9C] @ '': '' @
     [CHR 0xE5, CHR 0x9C, CHR 0xA8, CHR 0xE5, CHR 0x88, CHR 0x97] @ '' ['' @
     columnName @ ''] '' @
     [CHR 0xE4, CHR 0xB8, CHR 0xAD, CHR 0xE6, CHR 0x89, CHR 0xBE, CHR 0xE5, CHR 0x88,
      CHR 0xB0] @ '' '' @ Itoa n @ '' '' @
     [CHR 0xE8, CHR 0xA1, CHR 0x8C, CHR 0xE5, CHR 0x8C, CHR 0xB9, CHR 0xE9, CHR 0x85,
      CHR 0x8D, CHR 0xE6, CHR 0x95, CHR 0xB0, CHR 0xE6, CHR 0x8D, CHR 0xAE]"

text \<open>
  The loop of \<open>ApplyFilter\<close> over \<open>AllRows\<close>: the cell \<open>row[m.SortColumn]\<close> is read
  without a bounds check, and a matching row is appended to \<open>filteredRows\<close>.
\<close>

fun ApplyFilter_loop ::
  "(string \<Rightarrow> string) \<Rightarrow> int \<Rightarrow> string \<Rightarrow> Row list \<Rightarrow> Row list \<Rightarrow> error + Row list" where
  "ApplyFilter_loop ToLower col lowerFilterText filteredRows [] = Inr filteredRows"
| "ApplyFilter_loop ToLower col lowerFilterText filteredRows (row # rest) =
     (case index row col of
        Inl e \<Rightarrow> Inl e
      | Inr cell \<Rightarrow>
          ApplyFilter_loop ToLower col lowerFilterText
            (if Contains (ToLower cell) lowerFilterText then filteredRows @ [row]
             else filteredRows) rest)"

definition ApplyFilter :: "(string \<Rightarrow> string) \<Rightarrow> TableModel \<Rightarrow> error + TableModel" where
  "ApplyFilter ToLower m =
     (if FilterText m = '''' then
        (let m1 = (if len (AllRows m) > 0 then m\<lparr>OriginalRows := AllRows m\<rparr> else m)
         in case UpdateVisibleColumns m1 of
              Inl e \<Rightarrow> Inl e
            | Inr m2 \<Rightarrow> Inr (m2\<lparr>StatusMsg := msgRestored\<rparr>))
      else
        case ApplyFilter_loop ToLower (SortColumn m) (ToLower (FilterText m)) [] (AllRows m) of
          Inl e \<Rightarrow> Inl e
        | Inr filteredRows \<Rightarrow>
            (case UpdateVisibleColumns
                    (m\<lparr>FilteredRows := filteredRows, OriginalRows := filteredRows\<rparr>) of
               Inl e \<Rightarrow> Inl e
             | Inr m2 \<Rightarrow>
                 (case index (TableColumns m2) (SortColumn m2) of
                    Inl e \<Rightarrow> Inl e
                  | Inr column \<Rightarrow>
                      Inr (m2\<lparr>StatusMsg :=
                             msgFilterResult (col_Title column) (len filteredRows)\<rparr>))))"

section \<open>Export\<close>

text \<open>
  \<open>ExportToCSV\<close> returns the bytes written to the output file. \<open>mkdirOk\<close> and
  \<open>createOk\<close> say whether \<open>os.MkdirAll\<close> and \<open>os.Create\<close> succeed. The header line
  joins the titles as they are; a cell is quoted, with its quotes doubled, when it
  contains a comma, a quote or a newline.
\<close>

definition csvCell :: "string \<Rightarrow> string" where
  "csvCell cellStr =
     (if Contains cellStr '','' \<or> Contains cellStr [CHR 0x22] \<or> Contains cellStr [CHR 0x0A]
      then [CHR 0x22] @ ReplaceAll cellStr (CHR 0x22) [CHR 0x22, CHR 0x22] @ [CHR 0x22]
      else cellStr)"

definition ExportToCSV :: "bool \<Rightarrow> bool \<Rightarrow> TableModel \<Rightarrow> error + string" where
  "ExportToCSV mkdirOk createOk m =
     (if \<not> mkdirOk then Inl MkdirAllFailed
      else if \<not> createOk then Inl CreateFailed
      else
        let headers = map col_Title (TableColumns m) in
        Inr (Join headers '','' @ [CHR 0x0A] @
             concat (map (\<lambda>row. Join (map csvCell row) '','' @ [CHR 0x0A])
                       (OriginalRows m))))"

section \<open>Loading: \<open>ShowTable\<close>\<close>

text \<open>
  \<open>TableData\<close>, the input of \<open>ShowTable\<close>. \<open>termSize\<close> is what \<open>term.GetSize\<close>
  returns (\<open>None\<close> when it fails). \<open>ShowTable\<close> returns the error it returns before the
  interactive program starts, or the model the program starts with.
\<close>

record TableData =
  data_Title :: string
  Headers :: "string list"
  Rows :: "Row list"
  Metadata :: "string \<rightharpoonup> string"

definition noData :: string where
  "noData = [CHR 0xE6, CHR 0x97, CHR 0xA0, CHR 0xE6, CHR 0x95, CHR 0xB0, CHR 0xE6, CHR 0x8D,
             CHR 0xAE]"

fun colMaxWidth_row :: "nat \<Rightarrow> Row \<Rightarrow> int list \<Rightarrow> int list" where
  "colMaxWidth_row i [] colMaxWidth = colMaxWidth"
| "colMaxWidth_row i (cell # cells) colMaxWidth =
     colMaxWidth_row (i + 1) cells
       (if int i < len colMaxWidth \<and> len cell > colMaxWidth ! i
        then colMaxWidth[i := len cell + 2] else colMaxWidth)"

definition ShowTable_columns :: "TableData \<Rightarrow> Column list" where
  "ShowTable_columns data =
     (let colMaxWidth = fold (colMaxWidth_row 0) (Rows data)
                          (map (\<lambda>header. len header + 2) (Headers data))
      in map (\<lambda>(header, width).
                \<lparr>col_Title = header,
                 col_Width = (if width < 10 then 10 else if width > 40 then 40 else width)\<rparr>)
           (zip (Headers data) colMaxWidth))"

definition ShowTable ::
  "(bool \<Rightarrow> string \<Rightarrow> string \<Rightarrow> error + int) \<Rightarrow> (int \<times> int) option \<Rightarrow> TableData \<Rightarrow>
   error + TableModel" where
  "ShowTable parseUnits termSize data =
     (let tableColumns = ShowTable_columns data;
          tableRows = (if len (Rows data) = 0
                       then [replicate (length (Headers data)) noData] else Rows data);
          m = NewTableModel\<lparr>Title := data_Title data, RowCount := len (Rows data),
                OriginalRows := tableRows, AllRows := tableRows,
                TableColumns := tableColumns\<rparr>;
          m = (case termSize of
                 Some (width, height) \<Rightarrow>
                   m\<lparr>Width := width - 4,
                     Height := (if height - 12 < 10 then 10 else height - 12)\<rparr>
               | None \<Rightarrow> m\<lparr>Width := 80, Height := 20\<rparr>);
          durationStr = (case Metadata data ''QueryDuration'' of
                           None \<Rightarrow> '''' | Some s \<Rightarrow> s)
      in case table_New tableColumns tableRows True (Height m) of
           Inl e \<Rightarrow> Inl e
         | Inr t \<Rightarrow>
             (case ParseDuration parseUnits durationStr of
                Inl e \<Rightarrow> Inl e
              | Inr duration \<Rightarrow>
                  UpdateVisibleColumns
                    (CalculateMaxColumns (m\<lparr>QueryDuration := duration, Table := t\<rparr>))))"

section \<open>Notions the properties are stated with\<close>

text \<open>The widget \<open>table.New\<close> returns when it can render its first page.\<close>

definition widget :: "Column list \<Rightarrow> Row list \<Rightarrow> bool \<Rightarrow> table_Model" where
  "widget cs rs f = \<lparr>cols = cs, rows = rs, cursor = 0, focus = f\<rparr>"

text \<open>
  The width a list of columns takes on screen: each column's display width plus the
  inter-column padding of 2.
\<close>

definition windowWidth :: "Column list \<Rightarrow> int" where
  "windowWidth cs = sum_list (map (\<lambda>c. col_Width c + 2) cs)"


text \<open>The columns from the scroll offset on (a negative offset starts at column 0).\<close>

definition columnsFrom :: "TableModel \<Rightarrow> Column list" where
  "columnsFrom m = drop (nat (ScrollOffset m)) (TableColumns m)"


text \<open>A table of three columns of widths 10, 20 and 30 in a window 40 wide.\<close>

definition threeColumns :: TableModel where
  "threeColumns =
     NewTableModel\<lparr>TableColumns :=
         [\<lparr>col_Title = ''ID'', col_Width = 10\<rparr>,
          \<lparr>col_Title = ''Name'', col_Width = 20\<rparr>,
          \<lparr>col_Title = ''Age'', col_Width = 30\<rparr>],
       Width := 40\<rparr>"

text \<open>
  The scroll offset and the cursor as \<open>UpdateVisibleColumns\<close> clamps them, and the
  widget it builds: the closed form the properties below are proved against.
\<close>

definition clampOffset :: "TableModel \<Rightarrow> int" where
  "clampOffset m =
     (if ScrollOffset m < 0 then 0
      else if ScrollOffset m \<ge> len (TableColumns m) then len (TableColumns m) - 1
      else ScrollOffset m)"

definition clampCursor :: "int \<Rightarrow> int \<Rightarrow> int" where
  "clampCursor c n = (if c < 0 then 0 else if c \<ge> n then n - 1 else c)"

definition rebuiltTable :: "TableModel \<Rightarrow> table_Model" where
  "rebuiltTable m =
     (let off = clampOffset m;
          n = MaxColumns (CalculateMaxColumns (m\<lparr>ScrollOffset := off\<rparr>));
          t = widget (take (nat n) (drop (nat off) (TableColumns m)))
                (map (visibleRow off (nat n)) (OriginalRows m)) (focus (Table m))
      in if OriginalRows m = [] then t
         else t\<lparr>cursor := clampCursor (cursor (Table m)) (len (OriginalRows m))\<rparr>)"

text \<open>
  The scenario of the specification: three columns and three rows, in a window wide
  enough for all three columns, as it stands after loading.
\<close>

definition baseline :: "Row list" where
  "baseline = [[''1'', ''Alice'', ''30''], [''2'', ''bob'', ''25''], [''3'', ''Cara'', ''25'']]"

definition baselineColumns :: "Column list" where
  "baselineColumns =
     [\<lparr>col_Title = ''ID'', col_Width = 10\<rparr>,
      \<lparr>col_Title = ''Name'', col_Width = 10\<rparr>,
      \<lparr>col_Title = ''Age'', col_Width = 10\<rparr>]"

definition baselineModel :: TableModel where
  "baselineModel =
     NewTableModel\<lparr>Table := widget baselineColumns baseline True,
       RowCount := 3, OriginalRows := baseline, AllRows := baseline,
       TableColumns := baselineColumns, MaxColumns := 3, Width := 80, Height := 20\<rparr>"


text \<open>The scenario's model when the filter \<open>a\<close> on the column \<open>Name\<close> is confirmed.\<close>

definition filterModel :: TableModel where
  "filterModel = baselineModel\<lparr>SortColumn := 1, FilterText := ''a''\<rparr>"

text \<open>
  Two models with the same single row: one column titled \<open>a,b\<close>, and two columns
  titled \<open>a\<close> and \<open>b\<close>.
\<close>

definition commaHeaderModel :: TableModel where
  "commaHeaderModel =
     NewTableModel\<lparr>TableColumns := [\<lparr>col_Title = ''a,b'', col_Width = 10\<rparr>],
       OriginalRows := [[''x'']], AllRows := [[''x'']]\<rparr>"

definition twoHeaderModel :: TableModel where
  "twoHeaderModel =
     NewTableModel\<lparr>TableColumns :=
         [\<lparr>col_Title = ''a'', col_Width = 10\<rparr>, \<lparr>col_Title = ''b'', col_Width = 10\<rparr>],
       OriginalRows := [[''x'']], AllRows := [[''x'']]\<rparr>"

text \<open>
  The height \<open>ShowTable\<close> gives the table, the rows of the first page, which
  \<open>table.New\<close> renders at loading, and a row with more cells than the dataset has
  headers.
\<close>

definition loadHeight :: "(int \<times> int) option \<Rightarrow> int" where
  "loadHeight termSize =
     (case termSize of
        Some (width, height) \<Rightarrow> (if height - 12 < 10 then 10 else height - 12)
      | None \<Rightarrow> 20)"

definition firstPage :: "(int \<times> int) option \<Rightarrow> TableData \<Rightarrow> Row list" where
  "firstPage termSize data = take (nat (loadHeight termSize - 1)) (Rows data)"

definition overlong :: "TableData \<Rightarrow> Row \<Rightarrow> bool" where
  "overlong data row = (length (Headers data) < length row)"

text \<open>A dataset of one row under one header, without metadata.\<close>

definition noMetadata :: TableData where
  "noMetadata =
     \<lparr>data_Title = ''t'', Headers = [''ID''], Rows = [[''1'']], Metadata = Map.empty\<rparr>"

text \<open>
  A dataset without rows, whose query duration is \<open>0\<close>; \<open>noUnits\<close> rejects every
  duration that has a number to parse.
\<close>

definition noUnits :: "bool \<Rightarrow> string \<Rightarrow> string \<Rightarrow> error + int" where
  "noUnits neg s orig = Inl (InvalidDuration orig)"

definition emptyData :: TableData where
  "emptyData =
     \<lparr>data_Title = ''users'', Headers = [''ID'', ''Name''], Rows = [],
      Metadata = [''QueryDuration'' \<mapsto> ''0'']\<rparr>"

text \<open>
  A session of the program: the dataset is loaded on a terminal whose size is not
  known (a window of 80 by 20), then the keys are handled in turn. The scenarios give
  the query duration \<open>0\<close>, which needs no unit.
\<close>

fun Updates :: "KeyMsg list \<Rightarrow> TableModel \<Rightarrow> error + TableModel" where
  "Updates [] m = Inr m"
| "Updates (msg # msgs) m =
     (case Update msg m of Inl e \<Rightarrow> Inl e | Inr m' \<Rightarrow> Updates msgs m')"

definition session :: "TableData \<Rightarrow> KeyMsg list \<Rightarrow> error + TableModel" where
  "session data msgs =
     (case ShowTable noUnits None data of Inl e \<Rightarrow> Inl e | Inr m \<Rightarrow> Updates msgs m)"

text \<open>
  Two datasets under three headers with a row of one cell: that row alone, and that
  row after a row of three cells.
\<close>

definition oneCellData :: TableData where
  "oneCellData =
     \<lparr>data_Title = ''users'', Headers = [''ID'', ''Name'', ''Age''], Rows = [[''1'']],
      Metadata = [''QueryDuration'' \<mapsto> ''0'']\<rparr>"

definition raggedData :: TableData where
  "raggedData =
     \<lparr>data_Title = ''users'', Headers = [''ID'', ''Name'', ''Age''],
      Rows = [[''1'', ''Alice'', ''30''], [''2'']],
      Metadata = [''QueryDuration'' \<mapsto> ''0'']\<rparr>"

text \<open>
  For a list \<open>ps\<close> of positions of \<open>xs\<close>: two positions stand in \<open>ps\<close> in the
  opposite of their order in \<open>xs\<close> only where the comparison puts the first strictly
  before the second.
\<close>

definition onlyLessInversions :: "('a \<Rightarrow> 'a \<Rightarrow> error + bool) \<Rightarrow> 'a list \<Rightarrow> nat list \<Rightarrow> bool" where
  "onlyLessInversions lessf xs ps =
     (\<forall>p q. p < q \<and> q < length ps \<and> ps ! q < ps ! p \<longrightarrow>
            lessf (xs ! (ps ! p)) (xs ! (ps ! q)) = Inr True)"

text \<open>
  A parser of plain decimal numerals, on which \<open>strconv.ParseFloat\<close> returns the same
  number, with \<open><\<close> on the naturals.
\<close>

fun parseDigits :: "string \<Rightarrow> nat \<Rightarrow> nat option" where
  "parseDigits [] acc = Some acc"
| "parseDigits (c # cs) acc =
     (if CHR ''0'' \<le> c \<and> c \<le> CHR ''9''
      then parseDigits cs (10 * acc + (of_char c - 48)) else None)"

definition parseDecimal :: "string \<Rightarrow> nat option" where
  "parseDecimal s = (if s = [] then None else parseDigits s 0)"

text \<open>
  Thirteen rows \<open>[i, key]\<close>: the key is \<open>2\<close> in the rows 0 to 11 and \<open>1\<close> in row 12;
  and their model, to be sorted on the key column.
\<close>

definition thirteenRows :: "Row list" where
  "thirteenRows =
     [[''0'', ''2''], [''1'', ''2''], [''2'', ''2''], [''3'', ''2''], [''4'', ''2''],
      [''5'', ''2''], [''6'', ''2''], [''7'', ''2''], [''8'', ''2''], [''9'', ''2''],
      [''10'', ''2''], [''11'', ''2''], [''12'', ''1'']]"

definition thirteenModel :: TableModel where
  "thirteenModel =
     NewTableModel\<lparr>Table := widget (take 2 baselineColumns) thirteenRows True,
       RowCount := 13, SortColumn := 1, OriginalRows := thirteenRows,
       AllRows := thirteenRows, TableColumns := take 2 baselineColumns, MaxColumns := 2,
       Width := 80, Height := 20\<rparr>"

text \<open>
  Two rows under a schema of two columns, the second row one cell short, with the
  second column active for sorting and filtering.
\<close>

definition shortRowModel :: TableModel where
  "shortRowModel =
     NewTableModel\<lparr>Table := widget (take 2 baselineColumns) [[''1'', ''x''], [''2'']] True,
       RowCount := 2, SortColumn := 1, FilterText := ''x'',
       OriginalRows := [[''1'', ''x''], [''2'']], AllRows := [[''1'', ''x''], [''2'']],
       TableColumns := take 2 baselineColumns, ScrollOffset := 1, MaxColumns := 1,
       Width := 80, Height := 20\<rparr>"


section \<open>Properties of the Viewport Manager\<close>

subsection \<open>The loop of \<open>CalculateMaxColumns\<close>\<close>

lemma loop_skip:
  "i \<le> off \<Longrightarrow>
   CalculateMaxColumns_loop off w i t c cs =
   CalculateMaxColumns_loop off w off t c (drop (nat (off - i)) cs)"
proof (induction cs arbitrary: i)
  case Nil
  then show ?case by simp
next
  case (Cons a cs)
  show ?case
  proof (cases "i < off")
    case True
    then have "nat (off - i) = Suc (nat (off - (i + 1)))" by simp
    with True Cons.IH [of "i + 1"] show ?thesis by simp
  next
    case False
    with Cons.prems have "i = off" by simp
    then show ?thesis by simp
  qed
qed

lemma loop_count_shift:
  "off \<le> i \<Longrightarrow>
   CalculateMaxColumns_loop off w i t c cs =
   c + CalculateMaxColumns_loop off w i t 0 cs"
proof (induction cs arbitrary: i t c)
  case Nil
  then show ?case by simp
next
  case (Cons a cs)
  from Cons.prems have ni: "\<not> i < off" by simp
  show ?case
  proof (cases "t + (col_Width a + 2) > w")
    case True
    with ni show ?thesis by simp
  next
    case False
    from Cons.prems have le: "off \<le> i + 1" by simp
    from Cons.IH [OF le, of "t + (col_Width a + 2)" "c + 1"]
         Cons.IH [OF le, of "t + (col_Width a + 2)" "1"]
    show ?thesis using ni False by simp
  qed
qed

lemma loop_bounds:
  "off \<le> i \<Longrightarrow>
   0 \<le> CalculateMaxColumns_loop off w i t 0 cs \<and>
   CalculateMaxColumns_loop off w i t 0 cs \<le> len cs"
proof (induction cs arbitrary: i t)
  case Nil
  then show ?case by simp
next
  case (Cons a cs)
  from Cons.prems have ni: "\<not> i < off" and le: "off \<le> i + 1" by simp_all
  show ?case
    using ni Cons.IH [OF le, of "t + (col_Width a + 2)"]
          loop_count_shift [OF le, of w "t + (col_Width a + 2)" 1 cs]
    by simp
qed

lemma loop_fits:
  "off \<le> i \<Longrightarrow> k \<le> nat (CalculateMaxColumns_loop off w i t 0 cs) \<Longrightarrow> 1 \<le> k \<Longrightarrow>
   t + windowWidth (take k cs) \<le> w"
proof (induction cs arbitrary: i t k)
  case Nil
  then show ?case by simp
next
  case (Cons a cs)
  from Cons.prems have ni: "\<not> i < off" and le: "off \<le> i + 1" by simp_all
  show ?case
  proof (cases "t + (col_Width a + 2) > w")
    case True
    with ni Cons.prems show ?thesis by simp
  next
    case False
    obtain k' where k: "k = Suc k'" using Cons.prems(3) by (cases k) simp_all
    let ?n = "CalculateMaxColumns_loop off w (i + 1) (t + (col_Width a + 2)) 0 cs"
    have eq: "CalculateMaxColumns_loop off w i t 0 (a # cs) = 1 + ?n"
      using ni False loop_count_shift [OF le, of w "t + (col_Width a + 2)" 1 cs] by simp
    have n0: "0 \<le> ?n" using loop_bounds [OF le] by simp
    from Cons.prems(2) eq k n0 have k': "k' \<le> nat ?n" by simp
    show ?thesis
    proof (cases "k' = 0")
      case True
      with k False show ?thesis by (simp add: windowWidth_def)
    next
      case False
      then have "1 \<le> k'" by simp
      from Cons.IH [OF le k' this] show ?thesis
        using k by (simp add: windowWidth_def)
    qed
  qed
qed

lemma loop_next_overflows:
  "off \<le> i \<Longrightarrow> CalculateMaxColumns_loop off w i t 0 cs < len cs \<Longrightarrow>
   t + windowWidth (take (nat (CalculateMaxColumns_loop off w i t 0 cs) + 1) cs) > w"
proof (induction cs arbitrary: i t)
  case Nil
  then show ?case by simp
next
  case (Cons a cs)
  from Cons.prems have ni: "\<not> i < off" and le: "off \<le> i + 1" by simp_all
  show ?case
  proof (cases "t + (col_Width a + 2) > w")
    case True
    with ni show ?thesis by (simp add: windowWidth_def)
  next
    case False
    let ?n = "CalculateMaxColumns_loop off w (i + 1) (t + (col_Width a + 2)) 0 cs"
    have eq: "CalculateMaxColumns_loop off w i t 0 (a # cs) = 1 + ?n"
      using ni False loop_count_shift [OF le, of w "t + (col_Width a + 2)" 1 cs] by simp
    have n0: "0 \<le> ?n" using loop_bounds [OF le] by simp
    from Cons.prems(2) eq have lt: "?n < len cs" by simp
    have nat_eq: "nat (1 + ?n) = Suc (nat ?n)" using n0 by simp
    from Cons.IH [OF le lt] show ?thesis
      unfolding eq nat_eq by (simp add: windowWidth_def)
  qed
qed

lemma loop_past_offset:
  "off \<le> i \<Longrightarrow> off' \<le> i' \<Longrightarrow>
   CalculateMaxColumns_loop off w i t c cs = CalculateMaxColumns_loop off' w i' t c cs"
proof (induction cs arbitrary: i i' t c)
  case Nil
  then show ?case by simp
next
  case (Cons a cs)
  from Cons.prems have "off \<le> i + 1" "off' \<le> i' + 1" by simp_all
  from Cons.IH [OF this] Cons.prems show ?case by simp
qed

lemma CalculateMaxColumns_eq:
  "MaxColumns (CalculateMaxColumns m) =
     (if TableColumns m = [] then 0
      else let c = CalculateMaxColumns_loop (ScrollOffset m) (Width m) (ScrollOffset m) 0 0
                     (columnsFrom m)
           in if c = 0 \<and> columnsFrom m \<noteq> [] then 1 else c)"
proof (cases "TableColumns m = []")
  case True
  then show ?thesis by (simp add: CalculateMaxColumns_def)
next
  case False
  have skip: "CalculateMaxColumns_loop (ScrollOffset m) (Width m) 0 0 0 (TableColumns m) =
     CalculateMaxColumns_loop (ScrollOffset m) (Width m) (ScrollOffset m) 0 0 (columnsFrom m)"
  proof (cases "0 \<le> ScrollOffset m")
    case True
    from loop_skip [OF True, of "Width m" 0 0 "TableColumns m"]
    show ?thesis by (simp add: columnsFrom_def)
  next
    case neg: False
    from loop_past_offset [of "ScrollOffset m" 0 "ScrollOffset m" "ScrollOffset m"] neg
    show ?thesis by (simp add: columnsFrom_def)
  qed
  have ne: "(len (TableColumns m) > ScrollOffset m) = (columnsFrom m \<noteq> [])"
    using False by (cases "0 \<le> ScrollOffset m") (auto simp: columnsFrom_def nat_le_iff)
  show ?thesis using False skip ne by (simp add: CalculateMaxColumns_def Let_def)
qed

text \<open>
  Claim C3, as the code has it. For every column schema, scroll offset and available
  width, with \<open>cs\<close> the columns from the offset on and \<open>n\<close> the computed count:
  when a column exists at the offset and it alone overflows the width, \<open>n = 1\<close>;
  otherwise \<open>n\<close> is the number of columns accommodated before the first overflow
  (\<open>0 \<le> n \<le> length cs\<close>, every running total of the first \<open>k \<le> n\<close> columns stays
  within the width, and the next column, when there is one, overflows). Hence the
  window's summed width is at most the available width, or the window has exactly one
  column, or no column exists at the offset and the available width is negative (the
  window is then empty).
\<close>

theorem CalculateMaxColumns_window:
  "(columnsFrom m \<noteq> [] \<and> Width m < col_Width (hd (columnsFrom m)) + 2 \<longrightarrow>
      MaxColumns (CalculateMaxColumns m) = 1) \<and>
   (columnsFrom m = [] \<or> col_Width (hd (columnsFrom m)) + 2 \<le> Width m \<longrightarrow>
      0 \<le> MaxColumns (CalculateMaxColumns m) \<and>
      MaxColumns (CalculateMaxColumns m) \<le> len (columnsFrom m) \<and>
      (\<forall>k. 1 \<le> k \<and> k \<le> nat (MaxColumns (CalculateMaxColumns m)) \<longrightarrow>
           windowWidth (take k (columnsFrom m)) \<le> Width m) \<and>
      (MaxColumns (CalculateMaxColumns m) < len (columnsFrom m) \<longrightarrow>
         Width m <
         windowWidth (take (nat (MaxColumns (CalculateMaxColumns m)) + 1) (columnsFrom m)))) \<and>
   (windowWidth (take (nat (MaxColumns (CalculateMaxColumns m))) (columnsFrom m)) \<le> Width m \<or>
    MaxColumns (CalculateMaxColumns m) = 1 \<or>
    (columnsFrom m = [] \<and> Width m < 0))"
proof -
  let ?cs = "columnsFrom m"
  let ?c = "CalculateMaxColumns_loop (ScrollOffset m) (Width m) (ScrollOffset m) 0 0 ?cs"
  let ?n = "MaxColumns (CalculateMaxColumns m)"
  have bounds: "0 \<le> ?c" "?c \<le> len ?cs"
    using loop_bounds [of "ScrollOffset m" "ScrollOffset m" "Width m" 0 ?cs] by simp_all
  have fits: "windowWidth (take k ?cs) \<le> Width m" if "1 \<le> k" "k \<le> nat ?c" for k
    using loop_fits [of "ScrollOffset m" "ScrollOffset m" k "Width m" 0 ?cs] that by simp
  have over: "Width m < windowWidth (take (nat ?c + 1) ?cs)" if "?c < len ?cs"
    using loop_next_overflows [of "ScrollOffset m" "ScrollOffset m" "Width m" 0 ?cs] that
    by simp
  have empty: "?n = 0" if "?cs = []"
    using that by (simp add: CalculateMaxColumns_eq Let_def)
  have cols: "TableColumns m \<noteq> []" if "?cs \<noteq> []"
    using that by (auto simp: columnsFrom_def)
  have first_over: "?c = 0" if "?cs \<noteq> []" "Width m < col_Width (hd ?cs) + 2"
    using that by (cases ?cs) simp_all
  have first_fits: "1 \<le> ?c" if "?cs \<noteq> []" "col_Width (hd ?cs) + 2 \<le> Width m"
  proof (cases ?cs)
    case Nil
    with that show ?thesis by simp
  next
    case (Cons a rest)
    have "0 \<le> CalculateMaxColumns_loop (ScrollOffset m) (Width m) (ScrollOffset m + 1)
                 (col_Width a + 2) 0 rest"
      using loop_bounds [of "ScrollOffset m" "ScrollOffset m + 1"] by simp
    moreover have "CalculateMaxColumns_loop (ScrollOffset m) (Width m) (ScrollOffset m + 1)
                 (col_Width a + 2) 1 rest
        = 1 + CalculateMaxColumns_loop (ScrollOffset m) (Width m) (ScrollOffset m + 1)
                 (col_Width a + 2) 0 rest"
      by (rule loop_count_shift) simp
    ultimately show ?thesis using that Cons by simp
  qed
  have n_fits: "?n = ?c" if "?cs \<noteq> []" "col_Width (hd ?cs) + 2 \<le> Width m"
    using first_fits [OF that] cols [OF that(1)] by (simp add: CalculateMaxColumns_eq Let_def)
  have n_over: "?n = 1" if "?cs \<noteq> []" "Width m < col_Width (hd ?cs) + 2"
    using first_over [OF that] cols [OF that(1)] that(1)
    by (simp add: CalculateMaxColumns_eq Let_def)
  have A: "?cs \<noteq> [] \<and> Width m < col_Width (hd ?cs) + 2 \<longrightarrow> ?n = 1"
    using n_over by blast
  have B: "?cs = [] \<or> col_Width (hd ?cs) + 2 \<le> Width m \<longrightarrow>
      0 \<le> ?n \<and> ?n \<le> len ?cs \<and>
      (\<forall>k. 1 \<le> k \<and> k \<le> nat ?n \<longrightarrow> windowWidth (take k ?cs) \<le> Width m) \<and>
      (?n < len ?cs \<longrightarrow> Width m < windowWidth (take (nat ?n + 1) ?cs))"
  proof (cases "?cs = []")
    case True
    with empty show ?thesis by simp
  next
    case False
    show ?thesis
    proof
      assume "?cs = [] \<or> col_Width (hd ?cs) + 2 \<le> Width m"
      with False have f: "col_Width (hd ?cs) + 2 \<le> Width m" by simp
      from n_fits [OF False f] bounds fits over show
        "0 \<le> ?n \<and> ?n \<le> len ?cs \<and>
         (\<forall>k. 1 \<le> k \<and> k \<le> nat ?n \<longrightarrow> windowWidth (take k ?cs) \<le> Width m) \<and>
         (?n < len ?cs \<longrightarrow> Width m < windowWidth (take (nat ?n + 1) ?cs))"
        by simp
    qed
  qed
  have C: "windowWidth (take (nat ?n) ?cs) \<le> Width m \<or> ?n = 1 \<or> (?cs = [] \<and> Width m < 0)"
  proof (cases "?cs = []")
    case True
    then show ?thesis by (cases "Width m < 0") (simp_all add: windowWidth_def)
  next
    case False
    show ?thesis
    proof (cases "col_Width (hd ?cs) + 2 \<le> Width m")
      case True
      from n_fits [OF False True] first_fits [OF False True]
      have "1 \<le> nat ?n" "nat ?n \<le> nat ?c" by simp_all
      from fits [OF this] show ?thesis by simp
    next
      case over1: False
      then have "Width m < col_Width (hd ?cs) + 2" by simp
      from n_over [OF False this] show ?thesis by simp
    qed
  qed
  show ?thesis by (rule conjI [OF A conjI [OF B C]])
qed


theorem CalculateMaxColumns_window_witness:
  "columnsFrom threeColumns \<noteq> [] \<and>
   col_Width (hd (columnsFrom threeColumns)) + 2 \<le> Width threeColumns \<and>
   MaxColumns (CalculateMaxColumns threeColumns) = 2 \<and>
   windowWidth (take 2 (columnsFrom threeColumns)) = 34 \<and>
   Width threeColumns < windowWidth (take 3 (columnsFrom threeColumns))"
  using CalculateMaxColumns_window [of threeColumns]
  by (simp add: threeColumns_def NewTableModel_def columnsFrom_def windowWidth_def
      CalculateMaxColumns_def)

text \<open>
  The claim's last sentence as written fails where no column exists: with an empty
  schema and the available width \<open>-1\<close> the count is 0, so the window is empty, its
  summed width 0 exceeds the available width, and the window does not have one column.
\<close>

theorem window_width_counterexample:
  "\<not> (windowWidth (take (nat (MaxColumns (CalculateMaxColumns (NewTableModel\<lparr>Width := - 1\<rparr>))))
          (columnsFrom (NewTableModel\<lparr>Width := - 1\<rparr>)))
        \<le> Width (NewTableModel\<lparr>Width := - 1\<rparr>)
      \<or> MaxColumns (CalculateMaxColumns (NewTableModel\<lparr>Width := - 1\<rparr>)) = 1)"
  by (simp add: NewTableModel_def columnsFrom_def windowWidth_def CalculateMaxColumns_def)

subsection \<open>\<open>UpdateVisibleColumns\<close> in closed form\<close>

lemma CalculateMaxColumns_upd:
  "CalculateMaxColumns m = m\<lparr>MaxColumns := MaxColumns (CalculateMaxColumns m)\<rparr>"
  by (simp add: CalculateMaxColumns_def Let_def)

lemma CalculateMaxColumns_range:
  assumes "0 \<le> ScrollOffset m" "ScrollOffset m < len (TableColumns m)"
  shows "1 \<le> MaxColumns (CalculateMaxColumns m)"
    and "ScrollOffset m + MaxColumns (CalculateMaxColumns m) \<le> len (TableColumns m)"
proof -
  let ?cs = "columnsFrom m"
  let ?c = "CalculateMaxColumns_loop (ScrollOffset m) (Width m) (ScrollOffset m) 0 0 ?cs"
  from assms have ne: "?cs \<noteq> []" "TableColumns m \<noteq> []"
    by (auto simp: columnsFrom_def)
  have lencs: "len ?cs = len (TableColumns m) - ScrollOffset m"
    using assms by (simp add: columnsFrom_def)
  have b: "0 \<le> ?c" "?c \<le> len ?cs"
    using loop_bounds [of "ScrollOffset m" "ScrollOffset m" "Width m" 0 ?cs] by simp_all
  have n: "MaxColumns (CalculateMaxColumns m) = (if ?c = 0 then 1 else ?c)"
    using ne by (simp add: CalculateMaxColumns_eq Let_def)
  show "1 \<le> MaxColumns (CalculateMaxColumns m)" using n b by simp
  show "ScrollOffset m + MaxColumns (CalculateMaxColumns m) \<le> len (TableColumns m)"
    using n b lencs assms by (simp split: if_splits)
qed

lemma clampOffset_range:
  "TableColumns m \<noteq> [] \<Longrightarrow> 0 \<le> clampOffset m \<and> clampOffset m < len (TableColumns m)"
  by (auto simp: clampOffset_def)

lemma refreshCursor_id:
  "0 \<le> cursor t \<Longrightarrow> cursor t < len (rows t) \<Longrightarrow> refreshCursor t = t"
  by (cases "focus t")
     (auto simp: refreshCursor_def MoveUp_def MoveDown_def clamp_def min_def max_def)

lemma SetCursor_cursor:
  "rows t \<noteq> [] \<Longrightarrow> cursor (SetCursor c t) = clampCursor c (len (rows t))"
  by (auto simp: SetCursor_def clamp_def clampCursor_def min_def max_def)

lemma SetCursor_rows [simp]: "rows (SetCursor c t) = rows t"
  by (simp add: SetCursor_def)

lemma clampCursor_range: "0 < n \<Longrightarrow> 0 \<le> clampCursor c n \<and> clampCursor c n < n"
  by (auto simp: clampCursor_def)

lemma clampScrollOffset_eq:
  "TableColumns m \<noteq> [] \<Longrightarrow> clampScrollOffset m = m\<lparr>ScrollOffset := clampOffset m\<rparr>"
  by (auto simp: clampScrollOffset_def clampOffset_def Let_def)

lemma adjustScrollOffset_id:
  "ScrollOffset m + MaxColumns m \<le> len (TableColumns m) \<Longrightarrow> adjustScrollOffset m = m"
  by (simp add: adjustScrollOffset_def)

lemma visibleRow_length: "length (visibleRow off n row) \<le> n"
  by (simp add: visibleRow_def)

lemma table_New_fits:
  "\<forall>row \<in> set rs. length row \<le> length cs \<Longrightarrow> table_New cs rs f h = Inr (widget cs rs f)"
  by (auto simp: table_New_def widget_def list_ex_iff dest!: in_set_takeD)

lemma rebuildTable_Inr:
  assumes off: "0 \<le> ScrollOffset m" 
    and n: "0 \<le> MaxColumns m" "ScrollOffset m + MaxColumns m \<le> len (TableColumns m)"
  shows "rebuildTable m =
     Inr (m\<lparr>Table :=
       (let t = widget (take (nat (MaxColumns m)) (drop (nat (ScrollOffset m)) (TableColumns m)))
                (map (visibleRow (ScrollOffset m) (nat (MaxColumns m))) (OriginalRows m))
                (focus (Table m))
        in if OriginalRows m = [] then t
           else t\<lparr>cursor := clampCursor (cursor (Table m)) (len (OriginalRows m))\<rparr>)\<rparr>)"
proof -
  let ?off = "ScrollOffset m" and ?n = "MaxColumns m"
  let ?vc = "take (nat ?n) (drop (nat ?off) (TableColumns m))"
  let ?vr = "map (visibleRow ?off (nat ?n)) (OriginalRows m)"
  define t where "t = widget ?vc ?vr (focus (Table m))"
  define c where "c = (if cursor (Table m) < 0 then 0
                           else if cursor (Table m) \<ge> len ?vr
                             then len ?vr - 1
                           else cursor (Table m))"
  define t' where "t' = (if len ?vr > 0 then SetCursor c t else t)"
  have sl: "slice (TableColumns m) ?off (?off + ?n) = Inr ?vc"
    using off n by (simp add: slice_def)
  have lenvc: "length ?vc = nat ?n"
    using off n by simp
  have tn: "table_New ?vc ?vr (focus (Table m)) (Height m) = Inr t"
    unfolding t_def using lenvc by (intro table_New_fits) (simp add: visibleRow_length)
  have step: "rebuildTable m = Inr (m\<lparr>Table := refreshCursor t'\<rparr>)"
    unfolding rebuildTable_def using n(2) sl lenvc tn
    by (simp add: Let_def t'_def c_def)
  have t': "refreshCursor t' = (if OriginalRows m = [] then t
           else t\<lparr>cursor := clampCursor (cursor (Table m)) (len (OriginalRows m))\<rparr>)"
  proof (cases "OriginalRows m = []")
    case True
    then show ?thesis
      by (simp add: t'_def refreshCursor_def t_def widget_def)
  next
    case False
    have r: "rows t \<noteq> []" and lr: "len (rows t) = len (OriginalRows m)"
      using False by (simp_all add: t_def widget_def)
    have pos: "0 < len (OriginalRows m)" using False by simp
    have c: "c = clampCursor (cursor (Table m)) (len (OriginalRows m))"
      by (simp add: c_def clampCursor_def)
    have cr: "0 \<le> c" "c < len (OriginalRows m)"
      using clampCursor_range [OF pos, of "cursor (Table m)"] c by simp_all
    have sc: "SetCursor c t = t\<lparr>cursor := c\<rparr>"
      using cr lr by (simp add: SetCursor_def clamp_def min_def max_def)
    have "refreshCursor (t\<lparr>cursor := c\<rparr>) = t\<lparr>cursor := c\<rparr>"
      using cr lr by (intro refreshCursor_id) simp_all
    then have "refreshCursor (SetCursor c t) = t\<lparr>cursor := c\<rparr>"
      by (simp add: sc)
    moreover have "t' = SetCursor c t"
      using False by (simp add: t'_def)
    ultimately show ?thesis using False c by simp
  qed
  show ?thesis unfolding step t' by (simp add: Let_def t_def)
qed

lemma UpdateVisibleColumns_Inr:
  assumes cols: "TableColumns m \<noteq> []"
  shows "UpdateVisibleColumns m =
     Inr (m\<lparr>ScrollOffset := clampOffset m,
              MaxColumns := MaxColumns (CalculateMaxColumns (m\<lparr>ScrollOffset := clampOffset m\<rparr>)),
              Table := rebuiltTable m\<rparr>)"
proof -
  let ?off = "clampOffset m"
  let ?m2 = "m\<lparr>ScrollOffset := ?off\<rparr>"
  let ?n = "MaxColumns (CalculateMaxColumns ?m2)"
  let ?m3 = "?m2\<lparr>MaxColumns := ?n\<rparr>"
  from clampOffset_range [OF cols] have off: "0 \<le> ?off" "?off < len (TableColumns m)"
    by simp_all
  have m3: "CalculateMaxColumns ?m2 = ?m3"
    by (rule CalculateMaxColumns_upd)
  have n: "1 \<le> ?n" "?off + ?n \<le> len (TableColumns m)"
    using CalculateMaxColumns_range [of ?m2] off by simp_all
  have "UpdateVisibleColumns m = rebuildTable (adjustScrollOffset ?m3)"
    using cols by (simp add: UpdateVisibleColumns_def clampScrollOffset_eq m3 [symmetric])
  also have "adjustScrollOffset ?m3 = ?m3"
    using n by (intro adjustScrollOffset_id) simp
  also have "rebuildTable ?m3 = Inr (?m3\<lparr>Table := rebuiltTable m\<rparr>)"
    using off n by (subst rebuildTable_Inr) (simp_all add: rebuiltTable_def Let_def)
  finally show ?thesis by simp
qed

lemma rebuiltTable_rows:
  "rows (rebuiltTable m) =
     map (visibleRow (clampOffset m)
            (nat (MaxColumns (CalculateMaxColumns (m\<lparr>ScrollOffset := clampOffset m\<rparr>)))))
       (OriginalRows m)"
  by (simp add: rebuiltTable_def Let_def widget_def)

lemma rebuiltTable_cursor:
  "OriginalRows m \<noteq> [] \<Longrightarrow>
   cursor (rebuiltTable m) = clampCursor (cursor (Table m)) (len (OriginalRows m))"
  by (simp add: rebuiltTable_def Let_def widget_def)

lemma SelectedRow_rebuilt:
  assumes "TableColumns m \<noteq> []" "OriginalRows m \<noteq> []"
  shows "SelectedRow (rebuiltTable m) =
         visibleRow (clampOffset m)
           (nat (MaxColumns (CalculateMaxColumns (m\<lparr>ScrollOffset := clampOffset m\<rparr>))))
           (OriginalRows m ! nat (clampCursor (cursor (Table m)) (len (OriginalRows m))))"
proof -
  define c where "c = clampCursor (cursor (Table m)) (len (OriginalRows m))"
  from assms(2) have pos: "0 < len (OriginalRows m)" by simp
  from clampCursor_range [OF pos, of "cursor (Table m)"]
  have c: "0 \<le> c" "c < len (OriginalRows m)" "nat c < length (OriginalRows m)"
    by (auto simp: nat_less_iff c_def)
  have cur: "cursor (rebuiltTable m) = c"
    using rebuiltTable_cursor [OF assms(2)] by (simp add: c_def)
  show ?thesis
    unfolding SelectedRow_def cur rebuiltTable_rows c_def [symmetric]
    using c by simp
qed

lemma visibleRow_empty_iff: "0 < n \<Longrightarrow> (visibleRow off n row = []) = (len row \<le> off)"
  by (auto simp: visibleRow_def)

lemma EnsureCursorVisible_id:
  "0 \<le> cursor (Table m) \<Longrightarrow> cursor (Table m) < len (rows (Table m)) \<Longrightarrow>
   SelectedRow (Table m) \<noteq> [] \<Longrightarrow> EnsureCursorVisible m = m"
  by (simp add: EnsureCursorVisible_def Let_def)


section \<open>Properties of the cursor after a rebuild\<close>

lemmas model_defs = baselineModel_def NewTableModel_def baselineColumns_def baseline_def
  widget_def
lemmas load_defs = ShowTable_def ShowTable_columns_def ParseDuration_def NewTableModel_def
  widget_def
lemmas viewport_defs = UpdateVisibleColumns_def clampScrollOffset_def CalculateMaxColumns_def
  adjustScrollOffset_def rebuildTable_def slice_def visibleRow_def refreshCursor_def
  SetCursor_def MoveUp_def MoveDown_def clamp_def SelectedRow_def EnsureCursorVisible_def Let_def
  table_New_def

text \<open>
  What a rebuild does to the cursor, for every model with a column and an active row:
  the rebuild succeeds, the widget shows one row per active row, the cursor lies among
  them and is the cursor from before the rebuild clamped into their range. The selected
  row is non-empty, and the cursor guard then changes nothing, when the active row
  under the cursor has more cells than the scroll offset, in particular when every
  active row has one cell per column; otherwise the selected row is empty.
\<close>

lemma UpdateVisibleColumns_cursor:
  assumes "TableColumns m \<noteq> []" and "OriginalRows m \<noteq> []"
  shows "\<exists>m'. UpdateVisibleColumns m = Inr m' \<and>
     len (rows (Table m')) = len (OriginalRows m) \<and>
     0 \<le> cursor (Table m') \<and> cursor (Table m') < len (rows (Table m')) \<and>
     cursor (Table m') = clampCursor (cursor (Table m)) (len (rows (Table m'))) \<and>
     (ScrollOffset m' < len (OriginalRows m ! nat (cursor (Table m'))) \<longrightarrow>
        SelectedRow (Table m') \<noteq> [] \<and> EnsureCursorVisible m' = m') \<and>
     (len (OriginalRows m ! nat (cursor (Table m'))) \<le> ScrollOffset m' \<longrightarrow>
        SelectedRow (Table m') = []) \<and>
     ((\<forall>row \<in> set (OriginalRows m). length row = length (TableColumns m)) \<longrightarrow>
        SelectedRow (Table m') \<noteq> [] \<and> EnsureCursorVisible m' = m')"
proof -
  let ?off = "clampOffset m"
  let ?n = "MaxColumns (CalculateMaxColumns (m\<lparr>ScrollOffset := ?off\<rparr>))"
  let ?c = "clampCursor (cursor (Table m)) (len (OriginalRows m))"
  let ?m' = "m\<lparr>ScrollOffset := ?off, MaxColumns := ?n, Table := rebuiltTable m\<rparr>"
  from assms(2) have pos: "0 < len (OriginalRows m)" by simp
  from clampOffset_range [OF assms(1)]
  have off: "0 \<le> ?off" "?off < len (TableColumns m)" by simp_all
  have n: "0 < nat ?n"
    using CalculateMaxColumns_range(1) [of "m\<lparr>ScrollOffset := ?off\<rparr>"] off by simp
  have c: "0 \<le> ?c" "?c < len (OriginalRows m)"
    using clampCursor_range [OF pos, of "cursor (Table m)"] by simp_all
  have upd: "UpdateVisibleColumns m = Inr ?m'"
    by (rule UpdateVisibleColumns_Inr [OF assms(1)])
  have rows': "rows (Table ?m') = map (visibleRow ?off (nat ?n)) (OriginalRows m)"
    using assms(2) by (simp add: rebuiltTable_def Let_def widget_def)
  have cur': "cursor (Table ?m') = ?c"
    using assms(2) by (simp add: rebuiltTable_def Let_def widget_def)
  have sel: "SelectedRow (Table ?m') = visibleRow ?off (nat ?n) (OriginalRows m ! nat ?c)"
    using SelectedRow_rebuilt [OF assms] by simp
  have empty: "(SelectedRow (Table ?m') = []) = (len (OriginalRows m ! nat ?c) \<le> ?off)"
    unfolding sel by (rule visibleRow_empty_iff [OF n])
  have guard: "EnsureCursorVisible ?m' = ?m'" if "SelectedRow (Table ?m') \<noteq> []"
    using that c by (intro EnsureCursorVisible_id) (simp_all only: cur' rows', simp_all)
  have rect: "SelectedRow (Table ?m') \<noteq> []"
    if "\<forall>row \<in> set (OriginalRows m). length row = length (TableColumns m)"
  proof -
    from c have "OriginalRows m ! nat ?c \<in> set (OriginalRows m)" by simp
    with that have "length (OriginalRows m ! nat ?c) = length (TableColumns m)" by blast
    with off empty show ?thesis by simp
  qed
  have "len (rows (Table ?m')) = len (OriginalRows m)" using rows' by simp
  moreover have "0 \<le> cursor (Table ?m')" "cursor (Table ?m') < len (rows (Table ?m'))"
    using c by (simp_all only: cur' rows', simp_all)
  moreover have "cursor (Table ?m') = clampCursor (cursor (Table m)) (len (rows (Table ?m')))"
    by (simp only: cur' rows', simp)
  moreover have "ScrollOffset ?m' < len (OriginalRows m ! nat (cursor (Table ?m'))) \<longrightarrow>
        SelectedRow (Table ?m') \<noteq> [] \<and> EnsureCursorVisible ?m' = ?m'"
    using empty guard by (simp only: cur', simp)
  moreover have "len (OriginalRows m ! nat (cursor (Table ?m'))) \<le> ScrollOffset ?m' \<longrightarrow>
        SelectedRow (Table ?m') = []"
    using empty by (simp only: cur', simp)
  moreover have "(\<forall>row \<in> set (OriginalRows m). length row = length (TableColumns m)) \<longrightarrow>
        SelectedRow (Table ?m') \<noteq> [] \<and> EnsureCursorVisible ?m' = ?m'"
    using rect guard by blast
  ultimately show ?thesis using upd by blast
qed

text \<open>
  Claim C1 at two concrete inputs. A dataset under three headers whose only row has
  one cell is loaded and the Right key is pressed: the window starts at column 1, the
  rebuilt widget holds one row, this row has no cell, the cursor is on it, and the
  selected row is empty after the cursor guard has run. In the dataset whose second
  row has one cell, with the cursor moved to that row (it then selects the three
  cells \<open>2\<close>, empty, empty), the Right key leaves the cursor on row 0: the guard finds no
  selected row and moves to the first row, although the cursor before the rebuild, 1,
  lies among the two visible rows.
\<close>

theorem short_row_selection:
  "map_sum id (rows \<circ> Table) (session oneCellData [KeyRight]) = Inr [[]] \<and>
   map_sum id (cursor \<circ> Table) (session oneCellData [KeyRight]) = Inr 0 \<and>
   map_sum id (SelectedRow \<circ> Table) (session oneCellData [KeyRight]) = Inr [] \<and>
   map_sum id (cursor \<circ> Table) (session raggedData [KeyDown]) = Inr 1 \<and>
   map_sum id (SelectedRow \<circ> Table) (session raggedData [KeyDown]) = Inr [''2'', '''', ''''] \<and>
   map_sum id (rows \<circ> Table) (session raggedData [KeyDown, KeyRight]) =
     Inr [[''Alice'', ''30''], []] \<and>
   map_sum id (cursor \<circ> Table) (session raggedData [KeyDown, KeyRight]) = Inr 0 \<and>
   clampCursor 1 2 = 1"
proof -
  have one: "map_sum id (rows \<circ> Table) (session oneCellData [KeyRight]) = Inr [[]] \<and>
     map_sum id (cursor \<circ> Table) (session oneCellData [KeyRight]) = Inr 0 \<and>
     map_sum id (SelectedRow \<circ> Table) (session oneCellData [KeyRight]) = Inr []"
    by (simp add: session_def oneCellData_def load_defs viewport_defs Update_def scrollTo_def)
  have two: "map_sum id (cursor \<circ> Table) (session raggedData [KeyDown]) = Inr 1 \<and>
     map_sum id (SelectedRow \<circ> Table) (session raggedData [KeyDown]) = Inr [''2'', '''', ''''] \<and>
     map_sum id (rows \<circ> Table) (session raggedData [KeyDown, KeyRight]) =
       Inr [[''Alice'', ''30''], []] \<and>
     map_sum id (cursor \<circ> Table) (session raggedData [KeyDown, KeyRight]) = Inr 0"
    by (simp add: session_def raggedData_def load_defs viewport_defs Update_def scrollTo_def)
  from one two show ?thesis by (simp add: clampCursor_def)
qed

section \<open>Properties of the scroll keys\<close>

lemma EnsureCursorVisible_frame:
  "ScrollOffset (EnsureCursorVisible m) = ScrollOffset m"
  "MaxColumns (EnsureCursorVisible m) = MaxColumns m"
  "TableColumns (EnsureCursorVisible m) = TableColumns m"
  "OriginalRows (EnsureCursorVisible m) = OriginalRows m"
  "AllRows (EnsureCursorVisible m) = AllRows m"
  by (simp_all add: EnsureCursorVisible_def Let_def)

lemma scrollTo_Inr:
  assumes "TableColumns m \<noteq> []"
  shows "\<exists>m'. scrollTo off m = Inr m' \<and>
     ScrollOffset m' = clampOffset (m\<lparr>ScrollOffset := off\<rparr>) \<and>
     MaxColumns m' =
       MaxColumns (CalculateMaxColumns (m\<lparr>ScrollOffset := clampOffset (m\<lparr>ScrollOffset := off\<rparr>)\<rparr>)) \<and>
     TableColumns m' = TableColumns m"
proof -
  have cols: "TableColumns (m\<lparr>ScrollOffset := off\<rparr>) \<noteq> []" using assms by simp
  show ?thesis
    unfolding scrollTo_def Let_def UpdateVisibleColumns_Inr [OF cols]
    by (simp add: EnsureCursorVisible_frame)
qed

lemma Update_frame:
  "Update_key msg m = Inr m1 \<Longrightarrow> \<not> Filtering m \<Longrightarrow>
   \<exists>m'. Update msg m = Inr m' \<and> ScrollOffset m' = ScrollOffset m1 \<and>
        MaxColumns m' = MaxColumns m1 \<and> TableColumns m' = TableColumns m1"
  by (simp add: Update_def EnsureCursorVisible_frame)

lemma End_scrolls_to_last_column:
  assumes cols: "TableColumns m \<noteq> []" and nav: "\<not> Filtering m"
    and away: "ScrollOffset m \<noteq> len (TableColumns m) - 1"
  shows "\<exists>m'. Update KeyShiftRight m = Inr m' \<and>
     ScrollOffset m' = len (TableColumns m) - 1 \<and> MaxColumns m' = 1"
proof -
  let ?last = "len (TableColumns m) - 1"
  from cols have last: "0 \<le> ?last" by (cases "TableColumns m") simp_all
  have cl: "clampOffset (m\<lparr>ScrollOffset := ?last\<rparr>) = ?last"
    using last by (simp add: clampOffset_def)
  from scrollTo_Inr [OF cols, of ?last] obtain m1 where
    m1: "scrollTo ?last m = Inr m1" "ScrollOffset m1 = ?last"
        "MaxColumns m1 = MaxColumns (CalculateMaxColumns (m\<lparr>ScrollOffset := ?last\<rparr>))"
    unfolding cl by blast
  have "1 \<le> MaxColumns (CalculateMaxColumns (m\<lparr>ScrollOffset := ?last\<rparr>))"
    and "?last + MaxColumns (CalculateMaxColumns (m\<lparr>ScrollOffset := ?last\<rparr>))
           \<le> len (TableColumns m)"
    using CalculateMaxColumns_range [of "m\<lparr>ScrollOffset := ?last\<rparr>"] last by simp_all
  then have one: "MaxColumns m1 = 1" using m1(3) by simp
  have key: "Update_key KeyShiftRight m = Inr m1"
    using away last m1(1) by (simp add: Let_def)
  from Update_frame [OF key nav] m1(2) one show ?thesis by auto
qed

lemma Home_scrolls_to_first_column:
  assumes nav: "\<not> Filtering m" and off: "0 \<le> ScrollOffset m"
    and inv: "TableColumns m = [] \<longrightarrow> ScrollOffset m = 0"
  shows "\<exists>m'. Update KeyShiftLeft m = Inr m' \<and> ScrollOffset m' = 0"
proof (cases "ScrollOffset m > 0")
  case False
  with off have "Update_key KeyShiftLeft m = Inr m" "ScrollOffset m = 0" by simp_all
  with Update_frame [OF this(1) nav] show ?thesis by auto
next
  case True
  with inv have cols: "TableColumns m \<noteq> []" by auto
  have cl: "clampOffset (m\<lparr>ScrollOffset := 0\<rparr>) = 0"
    using cols by (simp add: clampOffset_def)
  from scrollTo_Inr [OF cols, of 0] obtain m1 where
    m1: "scrollTo 0 m = Inr m1" "ScrollOffset m1 = 0"
    unfolding cl by blast
  have key: "Update_key KeyShiftLeft m = Inr m1" using True m1(1) by simp
  from Update_frame [OF key nav] m1(2) show ?thesis by auto
qed

text \<open>
  Claim C7 at a concrete input. All three columns fit the window (summed width 36 of
  80, so \<open>max(0, columnCount - visibleColumnCount) = 0\<close>), and the End key leaves the
  scroll offset at the last column with one visible column: the window shows \<open>Age\<close>
  alone. The pull to the left in \<open>UpdateVisibleColumns\<close> never fires, since the count
  is recomputed from the new offset first.
\<close>

theorem End_shows_last_column_only:
  "case Update KeyShiftRight baselineModel of
     Inl e \<Rightarrow> False
   | Inr m' \<Rightarrow>
       ScrollOffset m' = 2 \<and> MaxColumns m' = 1 \<and>
       map col_Title (cols (Table m')) = [''Age''] \<and>
       windowWidth (TableColumns m') = 36 \<and> Width m' = 80 \<and>
       max 0 (len (TableColumns baselineModel) - MaxColumns baselineModel) = 0"
  by (simp add: model_defs viewport_defs Update_def scrollTo_def windowWidth_def)

section \<open>Properties of the Filter Engine\<close>

lemma UpdateVisibleColumns_total:
  "\<exists>m'. UpdateVisibleColumns m = Inr m' \<and>
     OriginalRows m' = OriginalRows m \<and> AllRows m' = AllRows m \<and>
     FilteredRows m' = FilteredRows m \<and> TableColumns m' = TableColumns m \<and>
     SortColumn m' = SortColumn m \<and> SortAsc m' = SortAsc m \<and>
     FilterText m' = FilterText m"
proof (cases "TableColumns m = []")
  case True
  then show ?thesis by (simp add: UpdateVisibleColumns_def)
next
  case False
  show ?thesis unfolding UpdateVisibleColumns_Inr [OF False] by simp
qed

lemma HasPrefix_iff: "HasPrefix s p = (\<exists>suf. s = p @ suf)"
  by (induction s p rule: HasPrefix.induct) auto

lemma Contains_iff: "Contains s substr = (\<exists>pre suf. s = pre @ substr @ suf)"
proof (induction s)
  case Nil
  then show ?case by auto
next
  case (Cons c cs)
  show ?case
  proof
    assume "Contains (c # cs) substr"
    then consider "HasPrefix (c # cs) substr" | "Contains cs substr" by auto
    then show "\<exists>pre suf. c # cs = pre @ substr @ suf"
    proof cases
      case 1
      then obtain suf where "c # cs = substr @ suf" by (auto simp: HasPrefix_iff)
      then have "c # cs = [] @ substr @ suf" by simp
      then show ?thesis by blast
    next
      case 2
      with Cons.IH obtain pre suf where "cs = pre @ substr @ suf" by blast
      then have "c # cs = (c # pre) @ substr @ suf" by simp
      then show ?thesis by blast
    qed
  next
    assume "\<exists>pre suf. c # cs = pre @ substr @ suf"
    then obtain pre suf where eq: "c # cs = pre @ substr @ suf" by blast
    show "Contains (c # cs) substr"
    proof (cases pre)
      case Nil
      with eq have "HasPrefix (c # cs) substr" by (auto simp: HasPrefix_iff)
      then show ?thesis by simp
    next
      case (Cons a pre')
      with eq have "cs = pre' @ substr @ suf" by simp
      with Cons.IH have "Contains cs substr" by blast
      then show ?thesis by simp
    qed
  qed
qed

lemma ApplyFilter_loop_Inr:
  "\<forall>row \<in> set rs. 0 \<le> col \<and> col < len row \<Longrightarrow>
   ApplyFilter_loop ToLower col q acc rs =
     Inr (acc @ filter (\<lambda>row. Contains (ToLower (row ! nat col)) q) rs)"
  by (induction rs arbitrary: acc) (simp_all add: index_def)

lemma asciiToLower_examples:
  "asciiToLower ''Alice'' = ''alice''" "asciiToLower ''bob'' = ''bob''"
  "asciiToLower ''Cara'' = ''cara''" "asciiToLower ''a'' = ''a''"
  by code_simp+

text \<open>
  What \<open>ApplyFilter\<close> returns, for every model. With an empty query the active rows
  become the baseline rows \<open>AllRows\<close>, unless the baseline is empty. With a non-empty
  query, a column of the schema and a cell at that column in every baseline row, the
  active rows are the baseline rows whose cell, lower-cased, contains the lower-cased
  query, in baseline order, whatever the active rows and the cached filter result were
  before. The baseline itself is never changed.
\<close>

lemma ApplyFilter_rows:
  "(FilterText m = '''' \<longrightarrow>
      (\<exists>m'. ApplyFilter ToLower m = Inr m' \<and> AllRows m' = AllRows m \<and>
         OriginalRows m' = (if AllRows m = [] then OriginalRows m else AllRows m))) \<and>
   (FilterText m \<noteq> '''' \<and> 0 \<le> SortColumn m \<and> SortColumn m < len (TableColumns m) \<and>
    (\<forall>row \<in> set (AllRows m). SortColumn m < len row) \<longrightarrow>
      (\<exists>m'. ApplyFilter ToLower m = Inr m' \<and> AllRows m' = AllRows m \<and>
         OriginalRows m' =
           filter (\<lambda>row. \<exists>pre suf. ToLower (row ! nat (SortColumn m)) =
                                   pre @ ToLower (FilterText m) @ suf) (AllRows m) \<and>
         (\<forall>prev cache. \<exists>m''.
            ApplyFilter ToLower (m\<lparr>OriginalRows := prev, FilteredRows := cache\<rparr>) = Inr m'' \<and>
            OriginalRows m'' = OriginalRows m')))"
proof (intro conjI impI)
  assume empty: "FilterText m = ''''"
  let ?m1 = "if len (AllRows m) > 0 then m\<lparr>OriginalRows := AllRows m\<rparr> else m"
  from UpdateVisibleColumns_total [of ?m1] obtain m2 where
    m2: "UpdateVisibleColumns ?m1 = Inr m2" "OriginalRows m2 = OriginalRows ?m1"
        "AllRows m2 = AllRows ?m1"
    by blast
  have "ApplyFilter ToLower m = Inr (m2\<lparr>StatusMsg := msgRestored\<rparr>)"
    using empty m2(1) by (simp add: ApplyFilter_def Let_def)
  moreover have "AllRows (m2\<lparr>StatusMsg := msgRestored\<rparr>) = AllRows m"
    using m2(3) by simp
  moreover have "OriginalRows (m2\<lparr>StatusMsg := msgRestored\<rparr>) =
                 (if AllRows m = [] then OriginalRows m else AllRows m)"
    using m2(2) by simp
  ultimately show "\<exists>m'. ApplyFilter ToLower m = Inr m' \<and> AllRows m' = AllRows m \<and>
         OriginalRows m' = (if AllRows m = [] then OriginalRows m else AllRows m)"
    by blast
next
  assume pre: "FilterText m \<noteq> '''' \<and> 0 \<le> SortColumn m \<and>
    SortColumn m < len (TableColumns m) \<and> (\<forall>row \<in> set (AllRows m). SortColumn m < len row)"
  let ?P = "\<lambda>row. Contains (ToLower (row ! nat (SortColumn m))) (ToLower (FilterText m))"
  let ?out = "filter ?P (AllRows m)"
  have run: "\<exists>m''. ApplyFilter ToLower (m\<lparr>OriginalRows := prev, FilteredRows := cache\<rparr>) = Inr m'' \<and>
               OriginalRows m'' = ?out \<and> AllRows m'' = AllRows m" for prev cache
  proof -
    let ?m = "m\<lparr>OriginalRows := prev, FilteredRows := cache\<rparr>"
    have loop: "ApplyFilter_loop ToLower (SortColumn ?m) (ToLower (FilterText ?m)) [] (AllRows ?m) =
                Inr ?out"
      using pre by (subst ApplyFilter_loop_Inr) auto
    let ?m1 = "?m\<lparr>FilteredRows := ?out, OriginalRows := ?out\<rparr>"
    from UpdateVisibleColumns_total [of ?m1] obtain m2 where
      m2: "UpdateVisibleColumns ?m1 = Inr m2" "OriginalRows m2 = ?out" "AllRows m2 = AllRows m"
          "TableColumns m2 = TableColumns m" "SortColumn m2 = SortColumn m"
      by auto
    have idx: "index (TableColumns m2) (SortColumn m2) =
               Inr (TableColumns m ! nat (SortColumn m))"
      using pre m2(4,5) by (simp add: index_def)
    have "ApplyFilter ToLower ?m =
            Inr (m2\<lparr>StatusMsg := msgFilterResult
                   (col_Title (TableColumns m ! nat (SortColumn m))) (len ?out)\<rparr>)"
      unfolding ApplyFilter_def using pre loop m2(1) idx by simp
    with m2(2,3) show ?thesis by simp
  qed
  have same: "m\<lparr>OriginalRows := OriginalRows m, FilteredRows := FilteredRows m\<rparr> = m"
    by simp
  from run [where prev = "OriginalRows m" and cache = "FilteredRows m"] obtain m' where
    m': "ApplyFilter ToLower m = Inr m'" "OriginalRows m' = ?out" "AllRows m' = AllRows m"
    unfolding same by blast
  have out: "?out = filter (\<lambda>row. \<exists>pre suf. ToLower (row ! nat (SortColumn m)) =
                                   pre @ ToLower (FilterText m) @ suf) (AllRows m)"
    by (simp add: Contains_iff)
  have "\<forall>prev cache. \<exists>m''.
            ApplyFilter ToLower (m\<lparr>OriginalRows := prev, FilteredRows := cache\<rparr>) = Inr m'' \<and>
            OriginalRows m'' = OriginalRows m'"
    using run m'(2) by metis
  with m' out show "\<exists>m'. ApplyFilter ToLower m = Inr m' \<and> AllRows m' = AllRows m \<and>
         OriginalRows m' =
           filter (\<lambda>row. \<exists>pre suf. ToLower (row ! nat (SortColumn m)) =
                                   pre @ ToLower (FilterText m) @ suf) (AllRows m) \<and>
         (\<forall>prev cache. \<exists>m''.
            ApplyFilter ToLower (m\<lparr>OriginalRows := prev, FilteredRows := cache\<rparr>) = Inr m'' \<and>
            OriginalRows m'' = OriginalRows m')"
    by auto
qed

text \<open>
  The baseline is never empty while rows are active. Loading fills it with the loaded
  rows (\<open>ShowTable_AllRows\<close> below), the Filter key takes it from the active rows when
  it is empty, and neither the scroll keys, nor a sort, nor a filter write it.
\<close>

lemma Update_Filter_snapshot:
  "AllRows (Update_Filter m) \<noteq> [] \<or> OriginalRows (Update_Filter m) = []"
  by (simp add: Update_Filter_def Let_def)

lemma Update_Filter_baseline:
  "AllRows (Update_Filter m) = (if AllRows m = [] then OriginalRows m else AllRows m) \<and>
   OriginalRows (Update_Filter m) = OriginalRows m"
  by (simp add: Update_Filter_def Let_def)

lemma Update_AllRows:
  assumes "Update msg m = Inr m'"
  shows "AllRows m' = AllRows m"
proof (cases "Filtering m")
  case True
  with assms show ?thesis by (simp add: Update_def)
next
  case False
  from assms False obtain m1 where
    k: "Update_key msg m = Inr m1"
    and m': "m' = EnsureCursorVisible (m1\<lparr>Table := table_Update msg (Table m1)\<rparr>)"
    by (auto simp: Update_def split: sum.splits)
  have scroll: "AllRows m2 = AllRows m" if "scrollTo off m = Inr m2" for off m2
  proof -
    from UpdateVisibleColumns_total [of "m\<lparr>ScrollOffset := off\<rparr>"] obtain m3 where
      "UpdateVisibleColumns (m\<lparr>ScrollOffset := off\<rparr>) = Inr m3" "AllRows m3 = AllRows m"
      by auto
    with that show ?thesis by (auto simp: scrollTo_def Let_def EnsureCursorVisible_frame)
  qed
  have "AllRows m1 = AllRows m"
    using k scroll by (cases msg) (auto simp: Let_def split: if_splits)
  then show ?thesis by (simp add: m' EnsureCursorVisible_frame)
qed

lemma ApplyFilter_AllRows:
  assumes "ApplyFilter ToLower m = Inr m'"
  shows "AllRows m' = AllRows m"
proof -
  have upd: "AllRows m2 = AllRows m1" if "UpdateVisibleColumns m1 = Inr m2" for m1 m2
    using UpdateVisibleColumns_total [of m1] that by auto
  from assms show ?thesis
    by (auto simp: ApplyFilter_def Let_def dest!: upd split: if_splits sum.splits)
qed

text \<open>
  Claim C4. For every baseline row list (the baseline is not empty while rows are
  active), column index valid for the schema and for every baseline row, and query
  text: filtering with an empty query makes the active rows the baseline rows,
  unchanged and in order; filtering with a non-empty query returns exactly the
  baseline rows whose cell at the column, lower-cased, contains the lower-cased query
  as a substring, in baseline order; and the result is the same whatever the active
  rows and the cached filter result were before, so every filter application starts
  from the baseline, which is never changed.
\<close>

theorem ApplyFilter_baseline:
  assumes snap: "AllRows m \<noteq> [] \<or> OriginalRows m = []"
  shows "(FilterText m = '''' \<longrightarrow>
      (\<exists>m'. ApplyFilter ToLower m = Inr m' \<and> AllRows m' = AllRows m \<and>
         OriginalRows m' = AllRows m)) \<and>
   (FilterText m \<noteq> '''' \<and> 0 \<le> SortColumn m \<and> SortColumn m < len (TableColumns m) \<and>
    (\<forall>row \<in> set (AllRows m). SortColumn m < len row) \<longrightarrow>
      (\<exists>m'. ApplyFilter ToLower m = Inr m' \<and> AllRows m' = AllRows m \<and>
         OriginalRows m' =
           filter (\<lambda>row. \<exists>pre suf. ToLower (row ! nat (SortColumn m)) =
                                   pre @ ToLower (FilterText m) @ suf) (AllRows m) \<and>
         (\<forall>prev cache. \<exists>m''.
            ApplyFilter ToLower (m\<lparr>OriginalRows := prev, FilteredRows := cache\<rparr>) = Inr m'' \<and>
            OriginalRows m'' = OriginalRows m'))) \<and>
   (FilterText m = '''' \<and> AllRows m \<noteq> [] \<longrightarrow>
      (\<forall>prev cache. \<exists>m''.
         ApplyFilter ToLower (m\<lparr>OriginalRows := prev, FilteredRows := cache\<rparr>) = Inr m'' \<and>
         OriginalRows m'' = AllRows m))"
proof (intro conjI impI)
  assume empty: "FilterText m = ''''"
  from ApplyFilter_rows [of m ToLower] empty obtain m' where
    "ApplyFilter ToLower m = Inr m'" "AllRows m' = AllRows m"
    "OriginalRows m' = (if AllRows m = [] then OriginalRows m else AllRows m)"
    by blast
  with snap show "\<exists>m'. ApplyFilter ToLower m = Inr m' \<and> AllRows m' = AllRows m \<and>
         OriginalRows m' = AllRows m"
    by auto
next
  assume pre: "FilterText m \<noteq> '''' \<and> 0 \<le> SortColumn m \<and>
    SortColumn m < len (TableColumns m) \<and> (\<forall>row \<in> set (AllRows m). SortColumn m < len row)"
  with ApplyFilter_rows [of m ToLower]
  show "\<exists>m'. ApplyFilter ToLower m = Inr m' \<and> AllRows m' = AllRows m \<and>
         OriginalRows m' =
           filter (\<lambda>row. \<exists>pre suf. ToLower (row ! nat (SortColumn m)) =
                                   pre @ ToLower (FilterText m) @ suf) (AllRows m) \<and>
         (\<forall>prev cache. \<exists>m''.
            ApplyFilter ToLower (m\<lparr>OriginalRows := prev, FilteredRows := cache\<rparr>) = Inr m'' \<and>
            OriginalRows m'' = OriginalRows m')"
    by blast
next
  assume e: "FilterText m = '''' \<and> AllRows m \<noteq> []"
  show "\<forall>prev cache. \<exists>m''.
         ApplyFilter ToLower (m\<lparr>OriginalRows := prev, FilteredRows := cache\<rparr>) = Inr m'' \<and>
         OriginalRows m'' = AllRows m"
  proof (intro allI)
    fix prev cache
    from ApplyFilter_rows [of "m\<lparr>OriginalRows := prev, FilteredRows := cache\<rparr>" ToLower] e
    show "\<exists>m''. ApplyFilter ToLower (m\<lparr>OriginalRows := prev, FilteredRows := cache\<rparr>) = Inr m'' \<and>
         OriginalRows m'' = AllRows m"
      by auto
  qed
qed

theorem ApplyFilter_baseline_witness:
  "AllRows filterModel \<noteq> [] \<and>
   FilterText filterModel \<noteq> '''' \<and> SortColumn filterModel = 1 \<and>
   len (TableColumns filterModel) = 3 \<and>
   list_all (\<lambda>row. SortColumn filterModel < len row) (AllRows filterModel) \<and>
   (case ApplyFilter asciiToLower filterModel of
      Inl e \<Rightarrow> False
    | Inr m' \<Rightarrow>
        OriginalRows m' = [[''1'', ''Alice'', ''30''], [''3'', ''Cara'', ''25'']] \<and>
        AllRows m' = baseline) \<and>
   AllRows (filterModel\<lparr>FilterText := '''', OriginalRows := []\<rparr>) \<noteq> [] \<and>
   FilterText (filterModel\<lparr>FilterText := '''', OriginalRows := []\<rparr>) = '''' \<and>
   (case ApplyFilter asciiToLower (filterModel\<lparr>FilterText := '''', OriginalRows := []\<rparr>) of
      Inl e \<Rightarrow> False
    | Inr m' \<Rightarrow> OriginalRows m' = baseline)"
proof -
  let ?e = "filterModel\<lparr>FilterText := '''', OriginalRows := []\<rparr>"
  have snap: "AllRows filterModel \<noteq> [] \<or> OriginalRows filterModel = []"
    "AllRows ?e \<noteq> [] \<or> OriginalRows ?e = []"
    by (simp_all add: filterModel_def model_defs)
  have hyp: "FilterText filterModel \<noteq> '''' \<and> 0 \<le> SortColumn filterModel \<and>
      SortColumn filterModel < len (TableColumns filterModel) \<and>
      (\<forall>row \<in> set (AllRows filterModel). SortColumn filterModel < len row)"
    by (simp add: filterModel_def model_defs)
  have flt: "filter (\<lambda>row. \<exists>pre suf. asciiToLower (row ! nat (SortColumn filterModel)) =
                 pre @ asciiToLower (FilterText filterModel) @ suf) (AllRows filterModel) =
             [[''1'', ''Alice'', ''30''], [''3'', ''Cara'', ''25'']]"
    unfolding Contains_iff [symmetric]
    by (simp add: filterModel_def model_defs asciiToLower_examples)
  from ApplyFilter_baseline [OF snap(1), of asciiToLower] hyp obtain m' where
    "ApplyFilter asciiToLower filterModel = Inr m'" "AllRows m' = AllRows filterModel"
    "OriginalRows m' =
       filter (\<lambda>row. \<exists>pre suf. asciiToLower (row ! nat (SortColumn filterModel)) =
                 pre @ asciiToLower (FilterText filterModel) @ suf) (AllRows filterModel)"
    by blast
  then have run: "case ApplyFilter asciiToLower filterModel of
      Inl e \<Rightarrow> False
    | Inr m' \<Rightarrow>
        OriginalRows m' = [[''1'', ''Alice'', ''30''], [''3'', ''Cara'', ''25'']] \<and>
        AllRows m' = baseline"
    unfolding flt by (simp add: filterModel_def model_defs)
  have "FilterText ?e = ''''" by simp
  with ApplyFilter_baseline [OF snap(2), of asciiToLower] obtain m' where
    "ApplyFilter asciiToLower ?e = Inr m'" "OriginalRows m' = AllRows ?e"
    by blast
  then have restore: "case ApplyFilter asciiToLower ?e of
      Inl e \<Rightarrow> False
    | Inr m' \<Rightarrow> OriginalRows m' = baseline"
    by (simp add: filterModel_def model_defs)
  from run restore show ?thesis
    by (simp add: filterModel_def model_defs)
qed

section \<open>Properties of the export\<close>

text \<open>
  Claim C9 at a concrete input. A header containing the delimiter is written as it
  is: the title \<open>a,b\<close> gives the header line \<open>a,b\<close>, the same file as the two titles
  \<open>a\<close> and \<open>b\<close> give, so no parser can recover the header from the file. A cell with
  the same text is quoted.
\<close>

theorem ExportToCSV_header_unquoted:
  "ExportToCSV True True commaHeaderModel = Inr (''a,b'' @ [CHR 0x0A] @ ''x'' @ [CHR 0x0A]) \<and>
   ExportToCSV True True twoHeaderModel = ExportToCSV True True commaHeaderModel \<and>
   csvCell ''a,b'' = [CHR 0x22] @ ''a,b'' @ [CHR 0x22]"
  by (simp add: commaHeaderModel_def twoHeaderModel_def NewTableModel_def ExportToCSV_def
      csvCell_def ReplaceAll_def)

section \<open>Properties of loading\<close>

lemma ParseDuration_empty: "ParseDuration parseUnits '''' = Inl (InvalidDuration '''')"
  by (simp add: ParseDuration_def)

lemma CalculateMaxColumns_frame [simp]:
  "TableColumns (CalculateMaxColumns m) = TableColumns m"
  "OriginalRows (CalculateMaxColumns m) = OriginalRows m"
  "AllRows (CalculateMaxColumns m) = AllRows m"
  "Table (CalculateMaxColumns m) = Table m"
  "ScrollOffset (CalculateMaxColumns m) = ScrollOffset m"
  "RowCount (CalculateMaxColumns m) = RowCount m"
  "Width (CalculateMaxColumns m) = Width m"
  by (simp_all add: CalculateMaxColumns_def Let_def)

lemma colMaxWidth_row_length: "length (colMaxWidth_row i row ws) = length ws"
  by (induction row arbitrary: i ws) simp_all

lemma colMaxWidth_fold_length:
  "length (fold (colMaxWidth_row 0) rs ws) = length ws"
  by (induction rs arbitrary: ws) (simp_all add: colMaxWidth_row_length)

lemma ShowTable_columns_length: "length (ShowTable_columns data) = length (Headers data)"
  by (simp add: ShowTable_columns_def colMaxWidth_fold_length)

lemma ShowTable_columns_titles: "map col_Title (ShowTable_columns data) = Headers data"
proof -
  let ?ws = "fold (colMaxWidth_row 0) (Rows data) (map (\<lambda>header. len header + 2) (Headers data))"
  have "map col_Title (ShowTable_columns data) = map fst (zip (Headers data) ?ws)"
    by (simp add: ShowTable_columns_def case_prod_unfold comp_def)
  also have "\<dots> = Headers data"
    by (rule map_fst_zip) (simp add: colMaxWidth_fold_length)
  finally show ?thesis .
qed

text \<open>
  The widget \<open>ShowTable\<close> builds first: \<open>table.New\<close> panics when a row of the first
  page has more cells than the dataset has headers; the placeholder row never has.
\<close>

lemma ShowTable_table_New:
  "table_New (ShowTable_columns data)
     (if len (Rows data) = 0 then [replicate (length (Headers data)) noData] else Rows data)
     True (loadHeight termSize) =
   (if list_ex (overlong data) (firstPage termSize data) then Inl IndexOutOfRange
    else Inr (widget (ShowTable_columns data)
           (if len (Rows data) = 0 then [replicate (length (Headers data)) noData]
            else Rows data) True))"
proof (cases "Rows data = []")
  case True
  have "\<not> list_ex (\<lambda>row. length (Headers data) < length row)
           (take n [replicate (length (Headers data)) noData])" for n
    by (cases n) simp_all
  with True show ?thesis
    by (simp add: table_New_def widget_def ShowTable_columns_length firstPage_def)
next
  case False
  then show ?thesis
    by (simp add: table_New_def widget_def ShowTable_columns_length firstPage_def
        overlong_def [abs_def])
qed

lemma ShowTable_eq:
  "\<exists>m0. RowCount m0 = len (Rows data) \<and>
     OriginalRows m0 =
       (if Rows data = [] then [replicate (length (Headers data)) noData] else Rows data) \<and>
     AllRows m0 = OriginalRows m0 \<and> TableColumns m0 = ShowTable_columns data \<and>
     ScrollOffset m0 = 0 \<and> SortColumn m0 = - 1 \<and> \<not> Filtering m0 \<and>
     ShowTable parseUnits termSize data =
       (if list_ex (overlong data) (firstPage termSize data) then Inl IndexOutOfRange
        else case ParseDuration parseUnits
                    (case Metadata data ''QueryDuration'' of None \<Rightarrow> '''' | Some s \<Rightarrow> s) of
               Inl e \<Rightarrow> Inl e
             | Inr d \<Rightarrow>
                 UpdateVisibleColumns
                   (CalculateMaxColumns
                      (m0\<lparr>QueryDuration := d,
                          Table := widget (TableColumns m0) (OriginalRows m0) True\<rparr>)))"
proof -
  let ?rows = "if len (Rows data) = 0 then [replicate (length (Headers data)) noData]
               else Rows data"
  let ?cols = "ShowTable_columns data"
  define m1 where "m1 =
     (case termSize of
        Some (width, height) \<Rightarrow>
          NewTableModel\<lparr>Title := data_Title data, RowCount := len (Rows data),
            OriginalRows := ?rows, AllRows := ?rows, TableColumns := ?cols,
            Width := width - 4, Height := (if height - 12 < 10 then 10 else height - 12)\<rparr>
      | None \<Rightarrow>
          NewTableModel\<lparr>Title := data_Title data, RowCount := len (Rows data),
            OriginalRows := ?rows, AllRows := ?rows, TableColumns := ?cols,
            Width := 80, Height := 20\<rparr>)"
  define m0 where "m0 = m1"
  have h: "Height m1 = loadHeight termSize"
    by (simp add: m1_def loadHeight_def split: option.splits prod.splits)
  have f: "RowCount m0 = len (Rows data)" "OriginalRows m0 = ?rows" "AllRows m0 = ?rows"
    "TableColumns m0 = ?cols" "ScrollOffset m0 = 0" "SortColumn m0 = - 1" "\<not> Filtering m0"
    by (simp_all add: m0_def m1_def NewTableModel_def split: option.splits prod.splits)
  have unfold: "ShowTable parseUnits termSize data =
     (case table_New ?cols ?rows True (Height m1) of
        Inl e \<Rightarrow> Inl e
      | Inr t \<Rightarrow>
          (case ParseDuration parseUnits
                  (case Metadata data ''QueryDuration'' of None \<Rightarrow> '''' | Some s \<Rightarrow> s) of
             Inl e \<Rightarrow> Inl e
           | Inr d \<Rightarrow> UpdateVisibleColumns
                        (CalculateMaxColumns (m1\<lparr>QueryDuration := d, Table := t\<rparr>))))"
    unfolding ShowTable_def m1_def Let_def by (rule refl)
  have "ShowTable parseUnits termSize data =
       (if list_ex (overlong data) (firstPage termSize data) then Inl IndexOutOfRange
        else case ParseDuration parseUnits
                    (case Metadata data ''QueryDuration'' of None \<Rightarrow> '''' | Some s \<Rightarrow> s) of
               Inl e \<Rightarrow> Inl e
             | Inr d \<Rightarrow>
                 UpdateVisibleColumns
                   (CalculateMaxColumns
                      (m0\<lparr>QueryDuration := d,
                          Table := widget (TableColumns m0) (OriginalRows m0) True\<rparr>)))"
  proof (cases "ParseDuration parseUnits
                    (case Metadata data ''QueryDuration'' of None \<Rightarrow> '''' | Some s \<Rightarrow> s)")
    case (Inl e)
    then show ?thesis unfolding unfold h ShowTable_table_New by simp
  next
    case (Inr d)
    then show ?thesis unfolding unfold h ShowTable_table_New using f by (simp add: m0_def)
  qed
  with f show ?thesis by (intro exI [of _ m0]) simp
qed

lemma ShowTable_fails_iff:
  "(ShowTable parseUnits termSize data = Inl e) =
   (if list_ex (overlong data) (firstPage termSize data) then e = IndexOutOfRange
    else ParseDuration parseUnits
           (case Metadata data ''QueryDuration'' of None \<Rightarrow> '''' | Some s \<Rightarrow> s) = Inl e)"
proof -
  from ShowTable_eq [of data parseUnits termSize] obtain m0 where
    eq: "ShowTable parseUnits termSize data =
       (if list_ex (overlong data) (firstPage termSize data) then Inl IndexOutOfRange
        else case ParseDuration parseUnits
                    (case Metadata data ''QueryDuration'' of None \<Rightarrow> '''' | Some s \<Rightarrow> s) of
               Inl e \<Rightarrow> Inl e
             | Inr d \<Rightarrow>
                 UpdateVisibleColumns
                   (CalculateMaxColumns
                      (m0\<lparr>QueryDuration := d,
                          Table := widget (TableColumns m0) (OriginalRows m0) True\<rparr>)))"
    by blast
  have "UpdateVisibleColumns m' \<noteq> Inl e" for m'
    using UpdateVisibleColumns_total [of m'] by auto
  then show ?thesis
    unfolding eq by (auto split: sum.splits)
qed

text \<open>
  After loading the baseline is never empty, and it is the active row list.
\<close>

lemma ShowTable_AllRows:
  assumes "ShowTable parseUnits termSize data = Inr m"
  shows "AllRows m \<noteq> [] \<and> OriginalRows m = AllRows m \<and> SortColumn m = - 1 \<and>
         \<not> Filtering m"
proof -
  from ShowTable_eq [of data parseUnits termSize] obtain m0 where
    f: "OriginalRows m0 =
          (if Rows data = [] then [replicate (length (Headers data)) noData] else Rows data)"
       "AllRows m0 = OriginalRows m0" "SortColumn m0 = - 1" "\<not> Filtering m0"
    and eq: "ShowTable parseUnits termSize data =
       (if list_ex (overlong data) (firstPage termSize data) then Inl IndexOutOfRange
        else case ParseDuration parseUnits
                    (case Metadata data ''QueryDuration'' of None \<Rightarrow> '''' | Some s \<Rightarrow> s) of
               Inl e \<Rightarrow> Inl e
             | Inr d \<Rightarrow>
                 UpdateVisibleColumns
                   (CalculateMaxColumns
                      (m0\<lparr>QueryDuration := d,
                          Table := widget (TableColumns m0) (OriginalRows m0) True\<rparr>)))"
    by blast
  define w where "w = widget (TableColumns m0) (OriginalRows m0) True"
  from assms eq obtain d where
    run: "UpdateVisibleColumns (CalculateMaxColumns (m0\<lparr>QueryDuration := d, Table := w\<rparr>)) = Inr m"
    by (auto simp: w_def split: if_splits sum.splits)
  have frame: "Filtering (CalculateMaxColumns m') = Filtering m'"
    "SortColumn (CalculateMaxColumns m') = SortColumn m'" for m'
    by (simp_all add: CalculateMaxColumns_def Let_def)
  have filt: "Filtering m = Filtering (CalculateMaxColumns (m0\<lparr>QueryDuration := d, Table := w\<rparr>))"
  proof (cases "TableColumns m0 = []")
    case True
    with run show ?thesis by (simp add: UpdateVisibleColumns_def)
  next
    case False
    then have "TableColumns (CalculateMaxColumns (m0\<lparr>QueryDuration := d, Table := w\<rparr>)) \<noteq> []"
      by simp
    from UpdateVisibleColumns_Inr [OF this] run show ?thesis by auto
  qed
  from UpdateVisibleColumns_total [of "CalculateMaxColumns (m0\<lparr>QueryDuration := d, Table := w\<rparr>)"] run
  have "OriginalRows m = OriginalRows m0" "AllRows m = AllRows m0" "SortColumn m = SortColumn m0"
    by (auto simp: frame)
  with f filt show ?thesis by (auto simp: frame)
qed

text \<open>
  Claim C8 at every input without the key. A missing \<open>QueryDuration\<close> reads as the
  empty string, which \<open>time.ParseDuration\<close> rejects, so \<open>ShowTable\<close> returns that
  error before the dataset is displayed, whatever the rest of the input is, unless
  building the widget has already failed on a row that has more cells than the dataset
  has headers; either way loading fails. In particular it fails with the error of the
  duration on the dataset of one row under one header, without metadata.
\<close>

theorem ShowTable_absent_QueryDuration:
  "ShowTable parseUnits termSize (data\<lparr>Metadata := (Metadata data)(''QueryDuration'' := None)\<rparr>)
     = Inl (if list_ex (overlong data) (firstPage termSize data) then IndexOutOfRange
            else InvalidDuration '''') \<and>
   Metadata noMetadata ''QueryDuration'' = None \<and>
   ShowTable parseUnits termSize noMetadata = Inl (InvalidDuration '''')"
proof -
  let ?data = "data\<lparr>Metadata := (Metadata data)(''QueryDuration'' := None)\<rparr>"
  have same: "overlong ?data = overlong data" "firstPage termSize ?data = firstPage termSize data"
    by (simp_all add: overlong_def [abs_def] firstPage_def)
  have "ShowTable parseUnits termSize ?data
     = Inl (if list_ex (overlong data) (firstPage termSize data) then IndexOutOfRange
            else InvalidDuration '''')"
    using ShowTable_fails_iff [of parseUnits termSize ?data]
    by (simp add: same ParseDuration_empty)
  moreover have "\<not> list_ex (overlong noMetadata) (firstPage termSize noMetadata)"
    by (auto simp: overlong_def noMetadata_def firstPage_def list_ex_iff dest!: in_set_takeD)
  then have "ShowTable parseUnits termSize noMetadata = Inl (InvalidDuration '''')"
    using ShowTable_fails_iff [of parseUnits termSize noMetadata]
    by (simp add: noMetadata_def ParseDuration_empty)
  ultimately show ?thesis by (simp add: noMetadata_def)
qed

lemma visibleRow_replicate:
  "n \<le> k \<Longrightarrow> 0 < k \<Longrightarrow> visibleRow 0 n (replicate k c) = replicate n c"
  by (auto simp: visibleRow_def intro!: nth_equalityI)

lemma csvCell_noData: "csvCell noData = noData"
  by (simp add: csvCell_def noData_def)

text \<open>
  Claim C10. When the table is loaded with zero data rows (and the query duration
  parses), the active dataset and the baseline hold exactly one placeholder row with
  one cell per header, every cell the placeholder text, while the reported row count
  is 0. The placeholder is an ordinary active row: the widget shows one row, the cursor
  is on it and selects its visible cells, and an export writes it after the header
  line.
\<close>

theorem ShowTable_no_rows:
  assumes norows: "Rows data = []"
    and dur: "ParseDuration parseUnits
      (case Metadata data ''QueryDuration'' of None \<Rightarrow> '''' | Some s \<Rightarrow> s) = Inr d"
  shows "\<exists>m. ShowTable parseUnits termSize data = Inr m \<and> RowCount m = 0 \<and>
     OriginalRows m = [replicate (length (Headers data)) noData] \<and>
     AllRows m = OriginalRows m \<and>
     len (rows (Table m)) = 1 \<and> cursor (Table m) = 0 \<and>
     SelectedRow (Table m) = replicate (nat (MaxColumns m)) noData \<and>
     (Headers data \<noteq> [] \<longrightarrow> 1 \<le> MaxColumns m) \<and>
     ExportToCSV True True m =
       Inr (Join (Headers data) '','' @ [CHR 0x0A] @
            Join (replicate (length (Headers data)) noData) '','' @ [CHR 0x0A])"
proof -
  let ?k = "length (Headers data)"
  let ?row = "replicate ?k noData"
  define tcols where "tcols = ShowTable_columns data"
  have page: "\<not> list_ex (overlong data) (firstPage termSize data)"
    using norows by (simp add: firstPage_def)
  from ShowTable_eq [of data parseUnits termSize] norows dur page obtain m00 where
    f0: "RowCount m00 = 0" "OriginalRows m00 = [?row]" "AllRows m00 = [?row]"
        "TableColumns m00 = tcols" "ScrollOffset m00 = 0"
    and show0: "ShowTable parseUnits termSize data =
                 UpdateVisibleColumns
                   (CalculateMaxColumns
                      (m00\<lparr>QueryDuration := d, Table := widget tcols [?row] True\<rparr>))"
    by (auto simp: tcols_def)
  define m0 where "m0 = m00\<lparr>QueryDuration := d, Table := widget tcols [?row] True\<rparr>"
  have show_eq: "ShowTable parseUnits termSize data =
                 UpdateVisibleColumns (CalculateMaxColumns m0)"
    using show0 by (simp add: m0_def)
  have f: "RowCount m0 = 0" "OriginalRows m0 = [?row]" "AllRows m0 = [?row]"
    "TableColumns m0 = tcols" "ScrollOffset m0 = 0" "Table m0 = widget tcols [?row] True"
    using f0 by (simp_all add: m0_def)
  have titles: "map col_Title tcols = Headers data" and ltc: "length tcols = ?k"
    by (simp_all add: tcols_def ShowTable_columns_titles ShowTable_columns_length)
  let ?m1 = "CalculateMaxColumns m0"
  have m1: "?m1 = m0\<lparr>MaxColumns := MaxColumns ?m1\<rparr>" by (rule CalculateMaxColumns_upd)
  have export: "ExportToCSV True True m =
       Inr (Join (Headers data) '','' @ [CHR 0x0A] @ Join ?row '','' @ [CHR 0x0A])"
    if "TableColumns m = tcols" "OriginalRows m = [?row]" for m
    using that titles by (simp add: ExportToCSV_def csvCell_noData)
  show ?thesis
  proof (cases "Headers data = []")
    case True
    then have nocols: "tcols = []" using ltc by simp
    have n0: "MaxColumns ?m1 = 0"
      using nocols f(4) by (simp add: CalculateMaxColumns_def)
    have upd: "UpdateVisibleColumns ?m1 = Inr ?m1"
      using nocols f(4) by (simp add: UpdateVisibleColumns_def)
    have g: "RowCount ?m1 = 0" "OriginalRows ?m1 = [?row]" "AllRows ?m1 = [?row]"
      "TableColumns ?m1 = tcols" "Table ?m1 = widget tcols [?row] True"
      by (simp_all add: f)
    show ?thesis
      unfolding show_eq upd
      using g n0 True export [of ?m1]
      by (simp add: widget_def SelectedRow_def)
  next
    case False
    then have cols: "TableColumns ?m1 \<noteq> []" and kpos: "0 < ?k"
      using ltc f(4) by auto
    have g: "RowCount ?m1 = 0" "OriginalRows ?m1 = [?row]" "AllRows ?m1 = [?row]"
      "TableColumns ?m1 = tcols" "Table ?m1 = widget tcols [?row] True"
      "ScrollOffset ?m1 = 0"
      by (simp_all add: f)
    have off: "clampOffset ?m1 = 0"
      using g(6) cols by (simp add: clampOffset_def)
    let ?n = "MaxColumns (CalculateMaxColumns (?m1\<lparr>ScrollOffset := 0\<rparr>))"
    have n: "1 \<le> ?n" "?n \<le> int ?k"
      using CalculateMaxColumns_range [of "?m1\<lparr>ScrollOffset := 0\<rparr>"] cols g(4) ltc
      by simp_all
    let ?m' = "?m1\<lparr>ScrollOffset := 0, MaxColumns := ?n, Table := rebuiltTable ?m1\<rparr>"
    have upd: "UpdateVisibleColumns ?m1 = Inr ?m'"
      using UpdateVisibleColumns_Inr [OF cols] off by simp
    have vr: "visibleRow 0 (nat ?n) ?row = replicate (nat ?n) noData"
      using n kpos by (intro visibleRow_replicate) simp_all
    have rt: "rows (rebuiltTable ?m1) = [replicate (nat ?n) noData]"
      "cursor (rebuiltTable ?m1) = 0"
      using vr g off by (simp_all add: rebuiltTable_def Let_def widget_def clampCursor_def)
    have sel: "SelectedRow (rebuiltTable ?m1) = replicate (nat ?n) noData"
      using rt by (simp add: SelectedRow_def)
    show ?thesis
      unfolding show_eq upd
      using g n rt sel export [of ?m'] by simp
  qed
qed

theorem ShowTable_no_rows_witness:
  "Rows emptyData = [] \<and>
   ParseDuration noUnits
     (case Metadata emptyData ''QueryDuration'' of None \<Rightarrow> '''' | Some s \<Rightarrow> s) = Inr 0 \<and>
   (case ShowTable noUnits (Some (84, 32)) emptyData of
      Inl e \<Rightarrow> False
    | Inr m \<Rightarrow> RowCount m = 0 \<and> OriginalRows m = [[noData, noData]] \<and>
        cursor (Table m) = 0 \<and> SelectedRow (Table m) = [noData, noData] \<and>
        ExportToCSV True True m =
          Inr (''ID,Name'' @ [CHR 0x0A] @ noData @ '','' @ noData @ [CHR 0x0A]))"
proof -
  have r: "Rows emptyData = []" by (simp add: emptyData_def)
  have d: "ParseDuration noUnits
     (case Metadata emptyData ''QueryDuration'' of None \<Rightarrow> '''' | Some s \<Rightarrow> s) = Inr 0"
    by (simp add: emptyData_def ParseDuration_def)
  from ShowTable_no_rows [OF r d, of "Some (84, 32)"] obtain m where
    m: "ShowTable noUnits (Some (84, 32)) emptyData = Inr m" "RowCount m = 0"
       "OriginalRows m = [replicate (length (Headers emptyData)) noData]"
       "cursor (Table m) = 0"
       "SelectedRow (Table m) = replicate (nat (MaxColumns m)) noData"
       "ExportToCSV True True m =
          Inr (Join (Headers emptyData) '','' @ [CHR 0x0A] @
               Join (replicate (length (Headers emptyData)) noData) '','' @ [CHR 0x0A])"
    by blast
  have mc: "MaxColumns m = 2"
    using m(1)
    by (auto simp add: ShowTable_def emptyData_def ParseDuration_def NewTableModel_def
        ShowTable_columns_def viewport_defs widget_def)
  have two: "replicate (length (Headers emptyData)) noData = [noData, noData]"
    by (simp add: emptyData_def)
  have hj: "Join (Headers emptyData) '','' = ''ID,Name''"
    by (simp add: emptyData_def)
  show ?thesis
    using r d m mc unfolding two hj by (simp add: numeral_2_eq_2)
qed

section \<open>The positions \<open>breakPatterns\<close> exchanges\<close>

text \<open>
  With a generator that always returns 0, every exchange has the first element of the
  range as its partner, which leaves the three positions near the middle in view: 6,
  7 and 8 on the range \<open>[0, 16)\<close>, and 7, 8 and 9 on the range \<open>[1, 17)\<close>, the range a
  sort of 17 elements continues with when its first pivot is the least element.
\<close>

lemma bits_Len_16: "bits_Len 16 = 5"
  by (simp add: bits_Len.simps [of 16] bits_Len.simps [of 8] bits_Len.simps [of 4]
      bits_Len.simps [of 2] bits_Len.simps [of 1] bits_Len.simps [of "Suc 0"]
      bits_Len.simps [of 0])

lemma breakPatterns_func_positions:
  "breakPatterns_func (\<lambda>random. 0) xs 0 16 = Swap (Swap (Swap xs 6 0) 7 0) 8 0"
  "breakPatterns_func (\<lambda>random. 0) xs 1 17 = Swap (Swap (Swap xs 7 1) 8 1) 9 1"
  by (simp_all add: breakPatterns_func_def bits_Len_16 Let_def)

section \<open>\<open>sort.Slice\<close> always returns\<close>

text \<open>
  The fuel of \<open>pdqsort_func\<close> is only a device of the definition: whenever the
  comparison does not fail with \<open>FuelExhausted\<close> (the comparison of \<open>SortRows\<close> fails
  with an index out of range or not at all), neither does the sort. First, an error of
  a loop is an error of the comparison; then, both partitions return an index inside
  the range, so every recursive call and every iteration works on a shorter range.
\<close>

lemma insertionSort_inner_fuel:
  "\<forall>x y. lessf x y \<noteq> Inl FuelExhausted \<Longrightarrow> insertionSort_inner lessf xs a j \<noteq> Inl FuelExhausted"
proof (induction lessf xs a j rule: insertionSort_inner.induct)
  case (1 lessf xs a j)
  have L: "Less lessf ys u v \<noteq> Inl FuelExhausted" for ys u v
    using "1.prems" by (simp add: Less_def)
  show ?case
    by (subst insertionSort_inner.simps)
       (use 1 L  in \<open>auto split: sum.splits prod.splits simp: Let_def\<close>)
qed

lemma insertionSort_loop_fuel:
  "\<forall>x y. lessf x y \<noteq> Inl FuelExhausted \<Longrightarrow> insertionSort_loop lessf xs a b i \<noteq> Inl FuelExhausted"
proof (induction lessf xs a b i rule: insertionSort_loop.induct)
  case (1 lessf xs a b i)
  have L: "Less lessf ys u v \<noteq> Inl FuelExhausted" for ys u v
    using "1.prems" by (simp add: Less_def)
  show ?case
    by (subst insertionSort_loop.simps)
       (use 1 L insertionSort_inner_fuel [OF "1.prems"] in \<open>auto split: sum.splits prod.splits simp: Let_def\<close>)
qed

lemma siftDown_func_fuel:
  assumes A: "\<forall>x y. lessf x y \<noteq> Inl FuelExhausted"
  shows "siftDown_func lessf xs root hi first \<noteq> Inl FuelExhausted"
proof (induction "nat (hi - root)" arbitrary: xs root rule: less_induct)
  case less
  have L: "Less lessf ys u v \<noteq> Inl FuelExhausted" for ys u v
    using A by (simp add: Less_def)
  show ?case
  proof (cases "2 * root + 1 \<ge> hi \<or> root < 0")
    case True
    then show ?thesis by (subst siftDown_func.simps) simp
  next
    case False
    define c1 where "c1 = (if 2 * root + 1 + 1 < hi
              then Less lessf xs (first + (2 * root + 1)) (first + (2 * root + 1) + 1)
              else Inr False)"
    have c1: "c1 \<noteq> Inl FuelExhausted" using L by (simp add: c1_def)
    have rec: "siftDown_func lessf ys child hi first \<noteq> Inl FuelExhausted"
      if "child = 2 * root + 1 + 1 \<or> child = 2 * root + 1" for ys child
      using that False by (intro less) auto
    show ?thesis
      by (subst siftDown_func.simps)
         (use False c1 L rec in \<open>auto simp: c1_def [symmetric] Let_def split: sum.splits\<close>)
  qed
qed

lemma heapSort_build_fuel:
  "\<forall>x y. lessf x y \<noteq> Inl FuelExhausted \<Longrightarrow> heapSort_build lessf xs hi first i \<noteq> Inl FuelExhausted"
proof (induction lessf xs hi first i rule: heapSort_build.induct)
  case (1 lessf xs hi first i)
  have L: "Less lessf ys u v \<noteq> Inl FuelExhausted" for ys u v
    using "1.prems" by (simp add: Less_def)
  show ?case
    by (subst heapSort_build.simps)
       (use 1 L siftDown_func_fuel [OF "1.prems"] in \<open>auto split: sum.splits prod.splits simp: Let_def\<close>)
qed

lemma heapSort_pop_fuel:
  "\<forall>x y. lessf x y \<noteq> Inl FuelExhausted \<Longrightarrow> heapSort_pop lessf xs first i \<noteq> Inl FuelExhausted"
proof (induction lessf xs first i rule: heapSort_pop.induct)
  case (1 lessf xs first i)
  have L: "Less lessf ys u v \<noteq> Inl FuelExhausted" for ys u v
    using "1.prems" by (simp add: Less_def)
  show ?case
    by (subst heapSort_pop.simps)
       (use 1 L siftDown_func_fuel [OF "1.prems"] in \<open>auto split: sum.splits prod.splits simp: Let_def\<close>)
qed

lemma partition_scanUp_fuel:
  "\<forall>x y. lessf x y \<noteq> Inl FuelExhausted \<Longrightarrow> partition_scanUp lessf xs a i j \<noteq> Inl FuelExhausted"
proof (induction lessf xs a i j rule: partition_scanUp.induct)
  case (1 lessf xs a i j)
  have L: "Less lessf ys u v \<noteq> Inl FuelExhausted" for ys u v
    using "1.prems" by (simp add: Less_def)
  show ?case
    by (subst partition_scanUp.simps)
       (use 1 L  in \<open>auto split: sum.splits prod.splits simp: Let_def\<close>)
qed

lemma partition_scanDown_fuel:
  "\<forall>x y. lessf x y \<noteq> Inl FuelExhausted \<Longrightarrow> partition_scanDown lessf xs a i j \<noteq> Inl FuelExhausted"
proof (induction lessf xs a i j rule: partition_scanDown.induct)
  case (1 lessf xs a i j)
  have L: "Less lessf ys u v \<noteq> Inl FuelExhausted" for ys u v
    using "1.prems" by (simp add: Less_def)
  show ?case
    by (subst partition_scanDown.simps)
       (use 1 L  in \<open>auto split: sum.splits prod.splits simp: Let_def\<close>)
qed

lemma partition_loop_fuel:
  "\<forall>x y. lessf x y \<noteq> Inl FuelExhausted \<Longrightarrow> partition_loop lessf xs a i j \<noteq> Inl FuelExhausted"
proof (induction lessf xs a i j rule: partition_loop.induct)
  case (1 lessf xs a i j)
  have L: "Less lessf ys u v \<noteq> Inl FuelExhausted" for ys u v
    using "1.prems" by (simp add: Less_def)
  show ?case
    by (subst partition_loop.simps)
       (use 1 L partition_scanUp_fuel [OF "1.prems"] partition_scanDown_fuel [OF "1.prems"] in \<open>auto split: sum.splits prod.splits simp: Let_def\<close>)
qed

lemma partitionEqual_scanUp_fuel:
  "\<forall>x y. lessf x y \<noteq> Inl FuelExhausted \<Longrightarrow> partitionEqual_scanUp lessf xs a i j \<noteq> Inl FuelExhausted"
proof (induction lessf xs a i j rule: partitionEqual_scanUp.induct)
  case (1 lessf xs a i j)
  have L: "Less lessf ys u v \<noteq> Inl FuelExhausted" for ys u v
    using "1.prems" by (simp add: Less_def)
  show ?case
    by (subst partitionEqual_scanUp.simps)
       (use 1 L  in \<open>auto split: sum.splits prod.splits simp: Let_def\<close>)
qed

lemma partitionEqual_scanDown_fuel:
  "\<forall>x y. lessf x y \<noteq> Inl FuelExhausted \<Longrightarrow> partitionEqual_scanDown lessf xs a i j \<noteq> Inl FuelExhausted"
proof (induction lessf xs a i j rule: partitionEqual_scanDown.induct)
  case (1 lessf xs a i j)
  have L: "Less lessf ys u v \<noteq> Inl FuelExhausted" for ys u v
    using "1.prems" by (simp add: Less_def)
  show ?case
    by (subst partitionEqual_scanDown.simps)
       (use 1 L  in \<open>auto split: sum.splits prod.splits simp: Let_def\<close>)
qed

lemma partitionEqual_loop_fuel:
  "\<forall>x y. lessf x y \<noteq> Inl FuelExhausted \<Longrightarrow> partitionEqual_loop lessf xs a i j \<noteq> Inl FuelExhausted"
proof (induction lessf xs a i j rule: partitionEqual_loop.induct)
  case (1 lessf xs a i j)
  have L: "Less lessf ys u v \<noteq> Inl FuelExhausted" for ys u v
    using "1.prems" by (simp add: Less_def)
  show ?case
    by (subst partitionEqual_loop.simps)
       (use 1 L partitionEqual_scanUp_fuel [OF "1.prems"] partitionEqual_scanDown_fuel [OF "1.prems"] in \<open>auto split: sum.splits prod.splits simp: Let_def\<close>)
qed

lemma partialInsertionSort_scan_fuel:
  "\<forall>x y. lessf x y \<noteq> Inl FuelExhausted \<Longrightarrow> partialInsertionSort_scan lessf xs i b \<noteq> Inl FuelExhausted"
proof (induction lessf xs i b rule: partialInsertionSort_scan.induct)
  case (1 lessf xs i b)
  have L: "Less lessf ys u v \<noteq> Inl FuelExhausted" for ys u v
    using "1.prems" by (simp add: Less_def)
  show ?case
    by (subst partialInsertionSort_scan.simps)
       (use 1 L  in \<open>auto split: sum.splits prod.splits simp: Let_def\<close>)
qed

lemma partialInsertionSort_shiftLeft_fuel:
  "\<forall>x y. lessf x y \<noteq> Inl FuelExhausted \<Longrightarrow> partialInsertionSort_shiftLeft lessf xs j \<noteq> Inl FuelExhausted"
proof (induction lessf xs j rule: partialInsertionSort_shiftLeft.induct)
  case (1 lessf xs j)
  have L: "Less lessf ys u v \<noteq> Inl FuelExhausted" for ys u v
    using "1.prems" by (simp add: Less_def)
  show ?case
    by (subst partialInsertionSort_shiftLeft.simps)
       (use 1 L  in \<open>auto split: sum.splits prod.splits simp: Let_def\<close>)
qed

lemma partialInsertionSort_shiftRight_fuel:
  "\<forall>x y. lessf x y \<noteq> Inl FuelExhausted \<Longrightarrow> partialInsertionSort_shiftRight lessf xs j b \<noteq> Inl FuelExhausted"
proof (induction lessf xs j b rule: partialInsertionSort_shiftRight.induct)
  case (1 lessf xs j b)
  have L: "Less lessf ys u v \<noteq> Inl FuelExhausted" for ys u v
    using "1.prems" by (simp add: Less_def)
  show ?case
    by (subst partialInsertionSort_shiftRight.simps)
       (use 1 L  in \<open>auto split: sum.splits prod.splits simp: Let_def\<close>)
qed

lemma insertionSort_func_fuel:
  "\<forall>x y. lessf x y \<noteq> Inl FuelExhausted \<Longrightarrow>
   insertionSort_func lessf xs a b \<noteq> Inl FuelExhausted"
  by (simp add: insertionSort_func_def insertionSort_loop_fuel)

lemma heapSort_func_fuel:
  assumes A: "\<forall>x y. lessf x y \<noteq> Inl FuelExhausted"
  shows "heapSort_func lessf xs a b \<noteq> Inl FuelExhausted"
  using heapSort_build_fuel [OF A] heapSort_pop_fuel [OF A]
  by (auto simp: heapSort_func_def Let_def split: sum.splits)

lemma partition_func_fuel:
  assumes A: "\<forall>x y. lessf x y \<noteq> Inl FuelExhausted"
  shows "partition_func lessf xs a b pivot \<noteq> Inl FuelExhausted"
  using partition_scanUp_fuel [OF A] partition_scanDown_fuel [OF A] partition_loop_fuel [OF A]
  by (auto simp: partition_func_def Let_def split: sum.splits prod.splits)

lemma partitionEqual_func_fuel:
  "\<forall>x y. lessf x y \<noteq> Inl FuelExhausted \<Longrightarrow>
   partitionEqual_func lessf xs a b pivot \<noteq> Inl FuelExhausted"
  by (simp add: partitionEqual_func_def partitionEqual_loop_fuel)

lemma partialInsertionSort_steps_fuel:
  assumes A: "\<forall>x y. lessf x y \<noteq> Inl FuelExhausted"
  shows "partialInsertionSort_steps lessf xs a b i steps \<noteq> Inl FuelExhausted"
proof (induction steps arbitrary: xs i)
  case 0
  show ?case by simp
next
  case (Suc steps)
  show ?case
    using partialInsertionSort_scan_fuel [OF A] partialInsertionSort_shiftLeft_fuel [OF A]
      partialInsertionSort_shiftRight_fuel [OF A] Suc
    by (auto split: sum.splits)
qed

lemma partialInsertionSort_func_fuel:
  "\<forall>x y. lessf x y \<noteq> Inl FuelExhausted \<Longrightarrow>
   partialInsertionSort_func lessf xs a b \<noteq> Inl FuelExhausted"
  by (simp add: partialInsertionSort_func_def partialInsertionSort_steps_fuel)

lemma order2_func_fuel:
  "\<forall>x y. lessf x y \<noteq> Inl FuelExhausted \<Longrightarrow>
   order2_func lessf xs a b swaps \<noteq> Inl FuelExhausted"
  by (auto simp: order2_func_def Less_def split: sum.splits)

lemma median_func_fuel:
  assumes A: "\<forall>x y. lessf x y \<noteq> Inl FuelExhausted"
  shows "median_func lessf xs a b c swaps \<noteq> Inl FuelExhausted"
  using order2_func_fuel [OF A]
  by (auto simp: median_func_def split: sum.splits prod.splits)

lemma choosePivot_func_fuel:
  assumes A: "\<forall>x y. lessf x y \<noteq> Inl FuelExhausted"
  shows "choosePivot_func lessf xs a b \<noteq> Inl FuelExhausted"
  using median_func_fuel [OF A]
  by (auto simp: choosePivot_func_def medianAdjacent_func_def Let_def
      split: sum.splits prod.splits)

lemma partition_scanUp_range:
  "partition_scanUp lessf xs a i j = Inr i' \<Longrightarrow> i' \<le> max i (j + 1)"
proof (induction lessf xs a i j rule: partition_scanUp.induct)
  case (1 lessf xs a i j)
  from "1.prems"(1) have "(if i \<le> j then
        (case Less lessf xs i a of
           Inl e \<Rightarrow> Inl e
         | Inr lt \<Rightarrow> if lt then partition_scanUp lessf xs a (i + 1) j else Inr i)
      else Inr i) = Inr i'"
    by (simp only: partition_scanUp.simps [of lessf xs a i j])
  then show ?case using "1.IH" by (fastforce split: if_splits sum.splits)
qed

lemma partition_scanDown_range:
  "partition_scanDown lessf xs a i j = Inr j' \<Longrightarrow> min (i - 1) j \<le> j'"
proof (induction lessf xs a i j rule: partition_scanDown.induct)
  case (1 lessf xs a i j)
  from "1.prems"(1) have "(if i \<le> j then
        (case Less lessf xs j a of
           Inl e \<Rightarrow> Inl e
         | Inr lt \<Rightarrow> if \<not> lt then partition_scanDown lessf xs a i (j - 1) else Inr j)
      else Inr j) = Inr j'"
    by (simp only: partition_scanDown.simps [of lessf xs a i j])
  then show ?case using "1.IH" by (fastforce split: if_splits sum.splits)
qed

lemma partition_loop_range:
  "partition_loop lessf xs a i j = Inr (xs', j') \<Longrightarrow> min (i - 1) j \<le> j' \<and> j' \<le> j"
proof (induction lessf xs a i j arbitrary: xs' j' rule: partition_loop.induct)
  case (1 lessf xs a i j)
  from "1.prems"(1) obtain i1 j1 where
    up: "partition_scanUp lessf xs a i j = Inr i1"
    and down: "partition_scanDown lessf xs a i1 j = Inr j1"
    and rest: "(if i1 > j1 then Inr (xs, j1)
                else partition_loop lessf (Swap xs i1 j1) a (i1 + 1) (j1 - 1)) = Inr (xs', j')"
    by (subst (asm) partition_loop.simps) (auto split: sum.splits)
  have i1: "i \<le> i1" "i1 \<le> max i (j + 1)"
    using partition_scanUp_mono [OF up] partition_scanUp_range [OF up] by simp_all
  have j1: "min (i1 - 1) j \<le> j1" "j1 \<le> j"
    using partition_scanDown_range [OF down] partition_scanDown_mono [OF down]
    by simp_all
  show ?case
  proof (cases "i1 > j1")
    case True
    with rest i1 j1 show ?thesis by auto
  next
    case False
    with rest have r: "partition_loop lessf (Swap xs i1 j1) a (i1 + 1) (j1 - 1) = Inr (xs', j')"
      by simp
    from "1.IH" [OF up down False r] False i1 j1 show ?thesis by auto
  qed
qed

lemma partition_func_range:
  assumes "partition_func lessf xs a b pivot = Inr (xs', mid, ap)" and "a < b"
  shows "a \<le> mid \<and> mid < b"
proof -
  let ?xs = "Swap xs a pivot"
  from assms(1) obtain i j where
    up: "partition_scanUp lessf ?xs a (a + 1) (b - 1) = Inr i"
    and down: "partition_scanDown lessf ?xs a i (b - 1) = Inr j"
    and rest: "(if i > j then Inr (Swap ?xs j a, j, True)
                else case partition_loop lessf (Swap ?xs i j) a (i + 1) (j - 1) of
                       Inl e \<Rightarrow> Inl e
                     | Inr (ys, j') \<Rightarrow> Inr (Swap ys j' a, j', False)) = Inr (xs', mid, ap)"
    by (auto simp: partition_func_def Let_def split: sum.splits)
  have i: "a + 1 \<le> i" "i \<le> b"
    using partition_scanUp_mono [OF up] partition_scanUp_range [OF up] assms(2) by simp_all
  have j: "a \<le> j" "j \<le> b - 1"
    using partition_scanDown_range [OF down] partition_scanDown_mono [OF down] i assms(2)
    by simp_all
  show ?thesis
  proof (cases "i > j")
    case True
    with rest i j show ?thesis by simp
  next
    case False
    with rest obtain ys where
      loop: "partition_loop lessf (Swap ?xs i j) a (i + 1) (j - 1) = Inr (ys, mid)"
      by (auto split: sum.splits prod.splits)
    from partition_loop_range [OF loop] False i j show ?thesis by auto
  qed
qed

lemma partitionEqual_scanUp_range:
  "partitionEqual_scanUp lessf xs a i j = Inr i' \<Longrightarrow> i' \<le> max i (j + 1)"
proof (induction lessf xs a i j rule: partitionEqual_scanUp.induct)
  case (1 lessf xs a i j)
  from "1.prems"(1) have "(if i \<le> j then
        (case Less lessf xs a i of
           Inl e \<Rightarrow> Inl e
         | Inr lt \<Rightarrow> if \<not> lt then partitionEqual_scanUp lessf xs a (i + 1) j else Inr i)
      else Inr i) = Inr i'"
    by (simp only: partitionEqual_scanUp.simps [of lessf xs a i j])
  then show ?case using "1.IH" by (fastforce split: if_splits sum.splits)
qed

lemma partitionEqual_loop_range:
  "partitionEqual_loop lessf xs a i j = Inr (xs', i') \<Longrightarrow> i \<le> i' \<and> i' \<le> max i (j + 1)"
proof (induction lessf xs a i j arbitrary: xs' i' rule: partitionEqual_loop.induct)
  case (1 lessf xs a i j)
  from "1.prems"(1) obtain i1 j1 where
    up: "partitionEqual_scanUp lessf xs a i j = Inr i1"
    and down: "partitionEqual_scanDown lessf xs a i1 j = Inr j1"
    and rest: "(if i1 > j1 then Inr (xs, i1)
                else partitionEqual_loop lessf (Swap xs i1 j1) a (i1 + 1) (j1 - 1))
               = Inr (xs', i')"
    by (subst (asm) partitionEqual_loop.simps) (auto split: sum.splits)
  have i1: "i \<le> i1" "i1 \<le> max i (j + 1)"
    using partitionEqual_scanUp_mono [OF up] partitionEqual_scanUp_range [OF up]
    by simp_all
  have j1: "j1 \<le> j"
    using partitionEqual_scanDown_mono [OF down] by simp
  show ?case
  proof (cases "i1 > j1")
    case True
    with rest i1 show ?thesis by auto
  next
    case False
    with rest have r:
      "partitionEqual_loop lessf (Swap xs i1 j1) a (i1 + 1) (j1 - 1) = Inr (xs', i')"
      by simp
    from "1.IH" [OF up down False r] False i1 j1 show ?thesis by auto
  qed
qed

lemma partitionEqual_func_range:
  assumes "partitionEqual_func lessf xs a b pivot = Inr (xs', mid)" and "a < b"
  shows "a < mid \<and> mid \<le> b"
  using partitionEqual_loop_range [OF assms(1) [unfolded partitionEqual_func_def]] assms(2)
  by auto

lemma fuel_case_sum:
  "r \<noteq> Inl FuelExhausted \<Longrightarrow> (\<And>v. r = Inr v \<Longrightarrow> f v \<noteq> Inl FuelExhausted) \<Longrightarrow>
   (case r of Inl e \<Rightarrow> Inl e | Inr v \<Rightarrow> f v) \<noteq> Inl FuelExhausted"
  by (cases r) auto

lemma fuel_case_prod:
  "(\<And>x y. p = (x, y) \<Longrightarrow> f x y \<noteq> Inl FuelExhausted) \<Longrightarrow>
   (case p of (x, y) \<Rightarrow> f x y) \<noteq> Inl FuelExhausted"
  by (cases p) auto

lemma fuel_if:
  "(c \<Longrightarrow> x \<noteq> Inl FuelExhausted) \<Longrightarrow> (\<not> c \<Longrightarrow> y \<noteq> Inl FuelExhausted) \<Longrightarrow>
   (if c then x else y) \<noteq> Inl FuelExhausted"
  by auto

lemma fuel_Inr: "Inr x \<noteq> Inl FuelExhausted"
  by simp

lemma pdqsort_func_fuel:
  assumes A: "\<forall>x y. lessf x y \<noteq> Inl FuelExhausted"
  shows "a \<le> b \<Longrightarrow> b - a < int fuel \<Longrightarrow>
     pdqsort_func fuel Next lessf xs a b limit wasBalanced wasPartitioned \<noteq> Inl FuelExhausted"
proof (induction fuel arbitrary: xs a b limit wasBalanced wasPartitioned)
  case 0
  then show ?case by simp
next
  case (Suc fuel)
  have L: "Less lessf ys u v \<noteq> Inl FuelExhausted" for ys u v
    using A by (simp add: Less_def)
  show ?case
  proof (cases "b - a \<le> 12")
    case True
    then show ?thesis
      by (subst pdqsort_func.simps) (simp add: insertionSort_func_fuel [OF A])
  next
    case long: False
    then have ab: "a < b" by simp
    show ?thesis
    proof (cases "limit = 0")
      case True
      with long show ?thesis
        by (subst pdqsort_func.simps) (simp add: heapSort_func_fuel [OF A])
    next
      case False
      have rec: "pdqsort_func fuel Next lessf ys a' b' l wb wp \<noteq> Inl FuelExhausted"
        if "a \<le> a'" "a' \<le> b'" "b' \<le> b" "a < a' \<or> b' < b" for ys a' b' l wb wp
        using that Suc.prems by (intro Suc.IH) auto
      have pe: "a < mid \<and> mid \<le> b"
        if "partitionEqual_func lessf ys a b pivot = Inr (zs, mid)" for ys pivot zs mid
        using partitionEqual_func_range [OF that ab] .
      have pa: "a \<le> mid \<and> mid < b"
        if "partition_func lessf ys a b pivot = Inr (zs, mid, ap)" for ys pivot zs mid ap
        using partition_func_range [OF that ab] .
      show ?thesis
        apply (subst pdqsort_func.simps)
        apply (simp only: long False if_False Let_def)
        apply (intro fuel_case_sum fuel_case_prod fuel_if fuel_Inr
            choosePivot_func_fuel [OF A] partialInsertionSort_func_fuel [OF A]
            partitionEqual_func_fuel [OF A] partition_func_fuel [OF A] L)
        subgoal by (rule rec) (auto dest!: pe)
        subgoal by (rule rec) (auto dest!: pa)
        subgoal by (rule rec) (auto dest!: pa)
        subgoal by (rule rec) (auto dest!: pa)
        subgoal by (rule rec) (auto dest!: pa)
        done
    qed
  qed
qed

lemma sort_Slice_returns:
  "\<forall>x y. lessf x y \<noteq> Inl FuelExhausted \<Longrightarrow> sort_Slice Next lessf xs \<noteq> Inl FuelExhausted"
  unfolding sort_Slice_def by (rule pdqsort_func_fuel) simp_all

section \<open>Properties of the Sort Engine\<close>

lemma sort_Slice_short:
  "length xs \<le> 12 \<Longrightarrow> sort_Slice Next lessf xs = insertionSort_func lessf xs 0 (len xs)"
  by (simp add: sort_Slice_def pdqsort_func.simps)

lemma SortRows_Inr:
  assumes "0 \<le> SortColumn m"
    and "sort_Slice Next (SortRows_less ParseFloat flt (SortColumn m) (SortAsc m))
           (OriginalRows m) = Inr rs"
  shows "\<exists>m'. SortRows Next ParseFloat flt m = Inr m' \<and> OriginalRows m' = rs \<and>
              AllRows m' = AllRows m"
proof -
  from UpdateVisibleColumns_total [of "m\<lparr>OriginalRows := rs\<rparr>"] obtain m' where
    "UpdateVisibleColumns (m\<lparr>OriginalRows := rs\<rparr>) = Inr m'" "OriginalRows m' = rs"
    "AllRows m' = AllRows m"
    by auto
  with assms show ?thesis by (simp add: SortRows_def)
qed

lemma SortRows_Inl:
  assumes "0 \<le> SortColumn m"
    and "sort_Slice Next (SortRows_less ParseFloat flt (SortColumn m) (SortAsc m))
           (OriginalRows m) = Inl e"
  shows "SortRows Next ParseFloat flt m = Inl e"
  using assms by (simp add: SortRows_def)

lemma SortRows_less_no_fuel_error:
  "SortRows_less ParseFloat flt col asc ri rj \<noteq> Inl FuelExhausted"
  by (auto simp: SortRows_less_def index_def split: sum.splits option.splits)

lemma SortRows_returns: "SortRows Next ParseFloat flt m \<noteq> Inl FuelExhausted"
proof -
  have "sort_Slice Next (SortRows_less ParseFloat flt (SortColumn m) (SortAsc m))
          (OriginalRows m) \<noteq> Inl FuelExhausted"
    by (rule sort_Slice_returns) (simp add: SortRows_less_no_fuel_error)
  moreover have "UpdateVisibleColumns m' \<noteq> Inl FuelExhausted" for m'
    using UpdateVisibleColumns_total [of m'] by auto
  ultimately show ?thesis
    by (auto simp: SortRows_def split: sum.splits)
qed

lemma SortRows_less_total:
  "0 \<le> col \<Longrightarrow> col < len ri \<Longrightarrow> col < len rj \<Longrightarrow>
   \<exists>r. SortRows_less ParseFloat flt col asc ri rj = Inr r"
  by (simp add: SortRows_less_def index_def split: option.splits)

lemma parseDecimal_examples:
  "parseDecimal ''25'' = Some 25" "parseDecimal ''30'' = Some 30"
  "parseDecimal ''1'' = Some 1" "parseDecimal ''2'' = Some 2"
  "parseDecimal ''Alice'' = None" "parseDecimal ''bob'' = None" "parseDecimal ''Zed'' = None"
  by code_simp+

lemma baseline_sorted_by_Age:
  assumes "ParseFloat ''25'' = Some x" "ParseFloat ''30'' = Some y"
    "flt x y" "\<not> flt y x" "\<not> flt x x"
  shows "sort_Slice Next (SortRows_less ParseFloat flt 2 True) baseline =
     Inr [[''2'', ''bob'', ''25''], [''3'', ''Cara'', ''25''], [''1'', ''Alice'', ''30'']]"
  using assms
  by (simp add: sort_Slice_short baseline_def insertionSort_func_def
      insertionSort_loop.simps [of _ _ 0 3 1] insertionSort_loop.simps [of _ _ 0 3 2]
      insertionSort_loop.simps [of _ _ 0 3 3]
      insertionSort_inner.simps [of _ _ 0 2] insertionSort_inner.simps [of _ _ 0 1]
      insertionSort_inner.simps [of _ _ 0 0]
      Less_def Swap_def SortRows_less_def index_def)

lemma baseline_sorted_by_Age_descending:
  assumes "ParseFloat ''25'' = Some x" "ParseFloat ''30'' = Some y"
    "flt x y" "\<not> flt y x" "\<not> flt x x"
  shows "sort_Slice Next (SortRows_less ParseFloat flt 2 False) baseline =
     Inr [[''1'', ''Alice'', ''30''], [''2'', ''bob'', ''25''], [''3'', ''Cara'', ''25'']]"
  using assms
  by (simp add: sort_Slice_short baseline_def insertionSort_func_def
      insertionSort_loop.simps [of _ _ 0 3 1] insertionSort_loop.simps [of _ _ 0 3 2]
      insertionSort_loop.simps [of _ _ 0 3 3]
      insertionSort_inner.simps [of _ _ 0 2] insertionSort_inner.simps [of _ _ 0 1]
      insertionSort_inner.simps [of _ _ 0 0]
      Less_def Swap_def SortRows_less_def index_def)

text \<open>
  Claim C5. For every pair of rows the comparison reaches (the column index is valid
  in both): when both cells parse as numbers they are compared numerically, otherwise
  as strings in byte order, which is case-sensitive; descending order is the ascending
  comparison with its arguments exchanged, that is the comparator's result flipped,
  and the rows themselves are not touched: a sort on a column index that is not
  negative makes the active rows what \<open>sort.Slice\<close> returns for the active rows as
  they stand, compared by this comparison in the direction of the model (and it fails
  as \<open>sort.Slice\<close> fails); and \<open>SortRows\<close> with a negative column index returns the
  model unchanged.
\<close>

theorem SortRows_comparator:
  "(0 \<le> col \<and> col < len ri \<and> col < len rj \<longrightarrow>
      (ParseFloat (ri ! nat col) = Some x \<and> ParseFloat (rj ! nat col) = Some y \<longrightarrow>
         SortRows_less ParseFloat flt col True ri rj = Inr (flt x y)) \<and>
      (ParseFloat (ri ! nat col) = None \<or> ParseFloat (rj ! nat col) = None \<longrightarrow>
         SortRows_less ParseFloat flt col True ri rj = Inr (ri ! nat col < rj ! nat col))) \<and>
   SortRows_less ParseFloat flt col False ri rj = SortRows_less ParseFloat flt col True rj ri \<and>
   (SortColumn m < 0 \<longrightarrow> SortRows Next ParseFloat flt m = Inr m) \<and>
   (0 \<le> SortColumn m \<longrightarrow>
      map_sum id OriginalRows (SortRows Next ParseFloat flt m) =
        sort_Slice Next (SortRows_less ParseFloat flt (SortColumn m) (SortAsc m))
          (OriginalRows m))"
proof (intro conjI impI)
  assume "0 \<le> col \<and> col < len ri \<and> col < len rj"
    and "ParseFloat (ri ! nat col) = Some x \<and> ParseFloat (rj ! nat col) = Some y"
  then show "SortRows_less ParseFloat flt col True ri rj = Inr (flt x y)"
    by (simp add: SortRows_less_def index_def)
next
  assume "0 \<le> col \<and> col < len ri \<and> col < len rj"
    and "ParseFloat (ri ! nat col) = None \<or> ParseFloat (rj ! nat col) = None"
  then show "SortRows_less ParseFloat flt col True ri rj = Inr (ri ! nat col < rj ! nat col)"
    by (auto simp: SortRows_less_def index_def split: option.splits)
next
  show "SortRows_less ParseFloat flt col False ri rj = SortRows_less ParseFloat flt col True rj ri"
    by (auto simp: SortRows_less_def index_def split: option.splits)
next
  assume "SortColumn m < 0"
  then show "SortRows Next ParseFloat flt m = Inr m" by (simp add: SortRows_def)
next
  assume col: "0 \<le> SortColumn m"
  show "map_sum id OriginalRows (SortRows Next ParseFloat flt m) =
        sort_Slice Next (SortRows_less ParseFloat flt (SortColumn m) (SortAsc m))
          (OriginalRows m)"
  proof (cases "sort_Slice Next (SortRows_less ParseFloat flt (SortColumn m) (SortAsc m))
           (OriginalRows m)")
    case (Inl e)
    with SortRows_Inl [OF col Inl] show ?thesis by simp
  next
    case (Inr rs)
    with SortRows_Inr [OF col Inr] show ?thesis by auto
  qed
qed

theorem SortRows_comparator_witness:
  "SortRows_less parseDecimal (<) 2 True [''1'', ''Alice'', ''30''] [''2'', ''bob'', ''25'']
     = Inr False \<and>
   SortRows_less parseDecimal (<) 2 False [''1'', ''Alice'', ''30''] [''2'', ''bob'', ''25'']
     = Inr True \<and>
   SortRows_less parseDecimal (<) 1 True [''1'', ''Zed'', ''30''] [''2'', ''bob'', ''25'']
     = Inr True \<and>
   SortRows_less parseDecimal (<) 1 False [''1'', ''Zed'', ''30''] [''2'', ''bob'', ''25'']
     = Inr False \<and>
   SortColumn NewTableModel < 0 \<and>
   SortRows id parseDecimal (<) NewTableModel = Inr NewTableModel \<and>
   SortColumn baselineModel < 0 \<and> OriginalRows baselineModel = baseline \<and>
   SortRows id parseDecimal (<) baselineModel = Inr baselineModel \<and>
   0 \<le> SortColumn (baselineModel\<lparr>SortColumn := 2, SortAsc := False\<rparr>) \<and>
   map_sum id OriginalRows
     (SortRows id parseDecimal (<) (baselineModel\<lparr>SortColumn := 2, SortAsc := False\<rparr>)) =
   Inr [[''1'', ''Alice'', ''30''], [''2'', ''bob'', ''25''], [''3'', ''Cara'', ''25'']] \<and>
   0 \<le> SortColumn (baselineModel\<lparr>SortColumn := 2, SortAsc := True\<rparr>) \<and>
   map_sum id OriginalRows
     (SortRows id parseDecimal (<) (baselineModel\<lparr>SortColumn := 2, SortAsc := True\<rparr>)) =
   Inr [[''2'', ''bob'', ''25''], [''3'', ''Cara'', ''25''], [''1'', ''Alice'', ''30'']]"
proof -
  let ?a = "[''1'', ''Alice'', ''30'']" and ?b = "[''2'', ''bob'', ''25'']"
  let ?z = "[''1'', ''Zed'', ''30'']"
  let ?d = "baselineModel\<lparr>SortColumn := 2, SortAsc := False\<rparr>"
  have neg: "SortColumn NewTableModel < 0" by (simp add: NewTableModel_def)
  from SortRows_comparator [of 2 ?a ?b parseDecimal 30 25 "(<)" NewTableModel id]
  have num: "SortRows_less parseDecimal (<) 2 True ?a ?b = Inr False"
    and noop: "SortRows id parseDecimal (<) NewTableModel = Inr NewTableModel"
    using neg by (simp_all add: parseDecimal_examples)
  from SortRows_comparator [of 2 ?b ?a parseDecimal 25 30 "(<)" NewTableModel id]
  have "SortRows_less parseDecimal (<) 2 True ?b ?a = Inr True"
    by (simp add: parseDecimal_examples)
  with SortRows_comparator [of 2 ?a ?b parseDecimal 30 25 "(<)" NewTableModel id]
  have desc: "SortRows_less parseDecimal (<) 2 False ?a ?b = Inr True"
    by simp
  from SortRows_comparator [of 1 ?z ?b parseDecimal 0 0 "(<)" NewTableModel id]
  have lex: "SortRows_less parseDecimal (<) 1 True ?z ?b = Inr True"
    by (simp add: parseDecimal_examples)
  from SortRows_comparator [of 1 ?b ?z parseDecimal 0 0 "(<)" NewTableModel id]
  have "SortRows_less parseDecimal (<) 1 True ?b ?z = Inr False"
    by (simp add: parseDecimal_examples)
  with SortRows_comparator [of 1 ?z ?b parseDecimal 0 0 "(<)" NewTableModel id]
  have lexd: "SortRows_less parseDecimal (<) 1 False ?z ?b = Inr False"
    by simp
  have negb: "SortColumn baselineModel < 0" "OriginalRows baselineModel = baseline"
    by (simp_all add: model_defs)
  from SortRows_comparator [of 2 ?a ?b parseDecimal 30 25 "(<)" baselineModel id] negb
  have noopb: "SortRows id parseDecimal (<) baselineModel = Inr baselineModel"
    by simp
  have cold: "0 \<le> SortColumn ?d" "SortColumn ?d = 2" "\<not> SortAsc ?d"
    "OriginalRows ?d = baseline"
    by (simp_all add: model_defs)
  have "sort_Slice id (SortRows_less parseDecimal (<) 2 False) baseline =
     Inr [?a, ?b, [''3'', ''Cara'', ''25'']]"
    by (rule baseline_sorted_by_Age_descending [of parseDecimal 25 30])
       (simp_all add: parseDecimal_examples)
  with SortRows_comparator [of 2 ?a ?b parseDecimal 30 25 "(<)" ?d id] cold
  have sorted: "map_sum id OriginalRows (SortRows id parseDecimal (<) ?d) =
     Inr [?a, ?b, [''3'', ''Cara'', ''25'']]"
    by simp
  let ?u = "baselineModel\<lparr>SortColumn := 2, SortAsc := True\<rparr>"
  have colu: "0 \<le> SortColumn ?u" "SortColumn ?u = 2" "SortAsc ?u"
    "OriginalRows ?u = baseline"
    by (simp_all add: model_defs)
  have "sort_Slice id (SortRows_less parseDecimal (<) 2 True) baseline =
     Inr [?b, [''3'', ''Cara'', ''25''], ?a]"
    by (rule baseline_sorted_by_Age [of parseDecimal 25 30])
       (simp_all add: parseDecimal_examples)
  with SortRows_comparator [of 2 ?a ?b parseDecimal 30 25 "(<)" ?u id] colu
  have sortedu: "map_sum id OriginalRows (SortRows id parseDecimal (<) ?u) =
     Inr [?b, [''3'', ''Cara'', ''25''], ?a]"
    by simp
  from num desc lex lexd neg noop negb noopb cold(1) sorted colu(1) sortedu
  show ?thesis by simp
qed

text \<open>
  Claim C6 at a concrete input. The second of two rows has one cell and the active
  column is 1: confirming a filter fails with an index out of range, and so does
  sorting, whose comparison reads the missing cell. Rebuilding the window never fails
  (\<open>UpdateVisibleColumns_total\<close>).
\<close>

theorem short_row_fails:
  "ApplyFilter asciiToLower shortRowModel = Inl IndexOutOfRange \<and>
   SortRows Next parseDecimal (<) shortRowModel = Inl IndexOutOfRange \<and>
   SortRows_less parseDecimal (<) 1 True [''2''] [''1'', ''x''] = Inl IndexOutOfRange"
proof -
  have flt: "ApplyFilter asciiToLower shortRowModel = Inl IndexOutOfRange"
    by (simp add: shortRowModel_def NewTableModel_def ApplyFilter_def index_def)
  have cmp: "SortRows_less parseDecimal (<) 1 True [''2''] [''1'', ''x''] = Inl IndexOutOfRange"
    by (simp add: SortRows_less_def index_def)
  have "sort_Slice Next (SortRows_less parseDecimal (<) 1 True) [[''1'', ''x''], [''2'']]
          = Inl IndexOutOfRange"
    using cmp
    by (simp add: sort_Slice_short insertionSort_func_def insertionSort_loop.simps [of _ _ 0 2 1]
        insertionSort_inner.simps [of _ _ 0 1] Less_def)
  then have "SortRows Next parseDecimal (<) shortRowModel = Inl IndexOutOfRange"
    by (intro SortRows_Inl) (simp_all add: shortRowModel_def NewTableModel_def)
  with flt cmp show ?thesis by simp
qed

subsection \<open>Insertion sort only exchanges neighbours that are out of order\<close>

lemma Swap_adjacent:
  "0 < k \<Longrightarrow> k < length ps \<Longrightarrow>
   Swap ps (int k) (int k - 1) = ps[k := ps ! (k - 1), k - 1 := ps ! k]"
  by (simp add: Swap_def nat_diff_distrib')

lemma onlyLessInversions_swap:
  assumes inv: "onlyLessInversions lessf xs ps" and k: "0 < k" "k < length ps"
    and lt: "lessf (xs ! (ps ! k)) (xs ! (ps ! (k - 1))) = Inr True"
  shows "onlyLessInversions lessf xs (ps[k := ps ! (k - 1), k - 1 := ps ! k])"
  unfolding onlyLessInversions_def
proof (intro allI impI)
  fix p q
  let ?ps' = "ps[k := ps ! (k - 1), k - 1 := ps ! k]"
  assume a: "p < q \<and> q < length ?ps' \<and> ?ps' ! q < ?ps' ! p"
  then have pq: "p < q" "q < length ps" "p < length ps" by simp_all
  define s where "s = (\<lambda>i. if i = k then k - 1 else if i = k - 1 then k else i)"
  have nth': "?ps' ! i = ps ! s i" if "i < length ps" for i
    using that k by (auto simp: s_def nth_list_update)
  from a have inv': "ps ! s q < ps ! s p" using nth' pq by simp
  show "lessf (xs ! (?ps' ! p)) (xs ! (?ps' ! q)) = Inr True"
  proof (cases "p = k - 1 \<and> q = k")
    case True
    then show ?thesis using lt k by (simp add: nth' s_def)
  next
    case False
    then have ord: "s p < s q" using pq k by (auto simp: s_def)
    have "s q < length ps" using pq k by (auto simp: s_def)
    with inv ord inv' have "lessf (xs ! (ps ! s p)) (xs ! (ps ! s q)) = Inr True"
      unfolding onlyLessInversions_def by blast
    then show ?thesis using nth' pq by simp
  qed
qed

lemma insertionSort_inner_stable:
  assumes noerr: "\<forall>x \<in> set xs. \<forall>y \<in> set xs. \<exists>r. lessf x y = Inr r"
  shows "0 \<le> a \<Longrightarrow> j < len ps \<Longrightarrow> set ps \<subseteq> {..<length xs} \<Longrightarrow>
     onlyLessInversions lessf xs ps \<Longrightarrow>
     \<exists>ps'. insertionSort_inner lessf (map ((!) xs) ps) a j = Inr (map ((!) xs) ps') \<and>
           onlyLessInversions lessf xs ps' \<and> length ps' = length ps \<and>
           set ps' = set ps \<and> distinct ps' = distinct ps"
proof (induction "nat (j - a)" arbitrary: j ps)
  case 0
  then have "\<not> j > a" by simp
  then have "insertionSort_inner lessf (map ((!) xs) ps) a j = Inr (map ((!) xs) ps)"
    by (simp add: insertionSort_inner.simps)
  with 0 show ?case by blast
next
  case (Suc n)
  then have ja: "j > a" by simp
  define k where "k = nat j"
  from ja Suc.prems have k: "0 < k" "k < length ps"
    and nj: "nat j = k" "nat (j - 1) = k - 1"
    by (auto simp: k_def nat_diff_distrib')
  from k Suc.prems(3) have inx: "ps ! k < length xs" "ps ! (k - 1) < length xs"
    by (auto simp: subset_iff)
  then have "xs ! (ps ! k) \<in> set xs" "xs ! (ps ! (k - 1)) \<in> set xs" by simp_all
  with noerr obtain r where r: "lessf (xs ! (ps ! k)) (xs ! (ps ! (k - 1))) = Inr r" by blast
  have less_eq: "Less lessf (map ((!) xs) ps) j (j - 1) = Inr r"
    using k r by (simp add: Less_def nj)
  show ?case
  proof (cases r)
    case False
    then have "insertionSort_inner lessf (map ((!) xs) ps) a j = Inr (map ((!) xs) ps)"
      using ja less_eq by (simp add: insertionSort_inner.simps [of _ _ a j])
    with Suc.prems show ?thesis by blast
  next
    case True
    let ?ps' = "ps[k := ps ! (k - 1), k - 1 := ps ! k]"
    have sw: "Swap (map ((!) xs) ps) j (j - 1) = map ((!) xs) ?ps'"
      using k by (simp add: Swap_def nj map_update)
    have step: "insertionSort_inner lessf (map ((!) xs) ps) a j =
                insertionSort_inner lessf (map ((!) xs) ?ps') a (j - 1)"
      using ja less_eq True sw by (simp add: insertionSort_inner.simps [of _ _ a j])
    have inv': "onlyLessInversions lessf xs ?ps'"
      using onlyLessInversions_swap [OF Suc.prems(4) k(1,2)] r True by simp
    have ms: "length ?ps' = length ps" "set ?ps' = set ps" "distinct ?ps' = distinct ps"
      using k by (simp_all add: set_swap distinct_swap)
    then have st: "set ?ps' \<subseteq> {..<length xs}"
      using Suc.prems(3) by simp
    have n: "n = nat (j - 1 - a)" using Suc.hyps(2) by simp
    have jl: "j - 1 < len ?ps'" using Suc.prems(2) by simp
    from Suc.hyps(1) [OF n Suc.prems(1) jl st inv'] ms step show ?thesis by auto
  qed
qed

lemma insertionSort_loop_stable:
  assumes noerr: "\<forall>x \<in> set xs. \<forall>y \<in> set xs. \<exists>r. lessf x y = Inr r"
  shows "0 \<le> a \<Longrightarrow> b \<le> len ps \<Longrightarrow> set ps \<subseteq> {..<length xs} \<Longrightarrow>
     onlyLessInversions lessf xs ps \<Longrightarrow>
     \<exists>ps'. insertionSort_loop lessf (map ((!) xs) ps) a b i = Inr (map ((!) xs) ps') \<and>
           onlyLessInversions lessf xs ps' \<and> length ps' = length ps \<and>
           set ps' = set ps \<and> distinct ps' = distinct ps"
proof (induction "nat (b - i)" arbitrary: i ps)
  case 0
  then have "\<not> i < b" by simp
  then have "insertionSort_loop lessf (map ((!) xs) ps) a b i = Inr (map ((!) xs) ps)"
    by (simp add: insertionSort_loop.simps)
  with 0 show ?case by blast
next
  case (Suc n)
  then have ib: "i < b" by simp
  with Suc.prems have il: "i < len ps" by simp
  from insertionSort_inner_stable [OF noerr Suc.prems(1) il Suc.prems(3,4)]
  obtain ps1 where ps1:
    "insertionSort_inner lessf (map ((!) xs) ps) a i = Inr (map ((!) xs) ps1)"
    "onlyLessInversions lessf xs ps1" "length ps1 = length ps"
    "set ps1 = set ps" "distinct ps1 = distinct ps"
    by blast
  from ps1(3) have l1: "length ps1 = length ps" .
  from ps1(4) have s1: "set ps1 \<subseteq> {..<length xs}"
    using Suc.prems(3) by simp
  have step: "insertionSort_loop lessf (map ((!) xs) ps) a b i =
              insertionSort_loop lessf (map ((!) xs) ps1) a b (i + 1)"
    using ib ps1(1) by (simp add: insertionSort_loop.simps [of _ _ a b i])
  have n: "n = nat (b - (i + 1))" using Suc.hyps(2) by simp
  have bl: "b \<le> len ps1" using Suc.prems(2) l1 by simp
  from Suc.hyps(1) [OF n Suc.prems(1) bl s1 ps1(2)] ps1(3,4,5) step show ?case by auto
qed

lemma sort_Slice_stable:
  assumes noerr: "\<forall>x \<in> set xs. \<forall>y \<in> set xs. \<exists>r. lessf x y = Inr r"
    and short: "length xs \<le> 12"
  shows "\<exists>ps. sort_Slice Next lessf xs = Inr (map ((!) xs) ps) \<and>
     length ps = length xs \<and> distinct ps \<and> set ps = {..<length xs} \<and>
     (\<forall>p q. p < q \<and> q < length xs \<and> lessf (xs ! (ps ! p)) (xs ! (ps ! q)) \<noteq> Inr True \<longrightarrow>
            ps ! p < ps ! q)"
proof -
  let ?ps0 = "[0..<length xs]"
  have inv0: "onlyLessInversions lessf xs ?ps0"
    by (auto simp: onlyLessInversions_def)
  have xs0: "map ((!) xs) ?ps0 = xs" by (rule map_nth)
  have b0: "len xs \<le> len ?ps0" and s0: "set ?ps0 \<subseteq> {..<length xs}" by auto
  from insertionSort_loop_stable [OF noerr _ b0 s0 inv0, of 0 1]
  obtain ps where ps: "insertionSort_loop lessf xs 0 (len xs) 1 = Inr (map ((!) xs) ps)"
    "onlyLessInversions lessf xs ps" "length ps = length ?ps0" "set ps = set ?ps0"
    "distinct ps = distinct ?ps0"
    unfolding xs0 by blast
  from ps(3) have len: "length ps = length xs" by simp
  from ps(5) have dist: "distinct ps" by simp
  from ps(4) have st: "set ps = {..<length xs}" by (simp add: atLeast0LessThan)
  have stable: "ps ! p < ps ! q"
    if "p < q" "q < length xs" "lessf (xs ! (ps ! p)) (xs ! (ps ! q)) \<noteq> Inr True" for p q
  proof -
    from that len have "\<not> ps ! q < ps ! p"
      using ps(2) unfolding onlyLessInversions_def by auto
    moreover have "ps ! p \<noteq> ps ! q"
      using dist that len by (simp add: nth_eq_iff_index_eq)
    ultimately show ?thesis by simp
  qed
  have "sort_Slice Next lessf xs = Inr (map ((!) xs) ps)"
    using ps(1) by (simp add: sort_Slice_short [OF short] insertionSort_func_def)
  with len dist st stable show ?thesis by blast
qed

lemma thirteen_eval:
  "sort_Slice Next (SortRows_less parseDecimal (<) 1 True) thirteenRows =
     Inr [[''12'', ''1''], [''6'', ''2''], [''2'', ''2''], [''3'', ''2''], [''4'', ''2''],
          [''5'', ''2''], [''0'', ''2''], [''7'', ''2''], [''8'', ''2''], [''9'', ''2''],
          [''10'', ''2''], [''11'', ''2''], [''1'', ''2'']]"
  by code_simp

text \<open>
  Claim C2, as the code has it. For every list of at most 12 rows (the lists
  \<open>sort.Slice\<close> sorts by insertion), valid column index and direction, the sort
  succeeds and is stable: the result is the rows at a permutation \<open>ps\<close> of the
  positions, and two rows whose cells do not compare strictly less in the order of the
  result keep their prior relative order, in particular rows whose cells compare
  equal. And sorting the baseline of the specification ascending on the column
  \<open>Age\<close> yields bob, Cara, Alice, whenever the number parser reads 25 and 30 as
  numbers in that order.
\<close>

theorem SortRows_stable_short:
  "(0 \<le> SortColumn m \<and> (\<forall>row \<in> set (OriginalRows m). SortColumn m < len row) \<and>
    length (OriginalRows m) \<le> 12 \<longrightarrow>
      (\<exists>ps m'. SortRows Next ParseFloat flt m = Inr m' \<and>
         OriginalRows m' = map ((!) (OriginalRows m)) ps \<and>
         length ps = length (OriginalRows m) \<and> distinct ps \<and>
         set ps = {..<length (OriginalRows m)} \<and>
         (\<forall>p q. p < q \<and> q < length ps \<and>
                SortRows_less ParseFloat flt (SortColumn m) (SortAsc m)
                  (OriginalRows m ! (ps ! p)) (OriginalRows m ! (ps ! q)) \<noteq> Inr True \<longrightarrow>
                ps ! p < ps ! q))) \<and>
   (ParseFloat ''25'' = Some x \<and> ParseFloat ''30'' = Some y \<and>
    flt x y \<and> \<not> flt y x \<and> \<not> flt x x \<longrightarrow>
      (\<exists>m'. SortRows Next ParseFloat flt (baselineModel\<lparr>SortColumn := 2, SortAsc := True\<rparr>)
               = Inr m' \<and>
         OriginalRows m' =
           [[''2'', ''bob'', ''25''], [''3'', ''Cara'', ''25''], [''1'', ''Alice'', ''30'']]))"
proof (intro conjI impI)
  assume pre: "0 \<le> SortColumn m \<and> (\<forall>row \<in> set (OriginalRows m). SortColumn m < len row) \<and>
    length (OriginalRows m) \<le> 12"
  let ?lessf = "SortRows_less ParseFloat flt (SortColumn m) (SortAsc m)"
  let ?rows = "OriginalRows m"
  have noerr: "\<forall>x \<in> set ?rows. \<forall>y \<in> set ?rows. \<exists>r. ?lessf x y = Inr r"
    using pre SortRows_less_total by blast
  from pre have short: "length ?rows \<le> 12" by simp
  from sort_Slice_stable [OF noerr short, of Next] obtain ps where
    ps: "sort_Slice Next ?lessf ?rows = Inr (map ((!) ?rows) ps)"
      "length ps = length ?rows" "distinct ps" "set ps = {..<length ?rows}"
      "\<forall>p q. p < q \<and> q < length ?rows \<and> ?lessf (?rows ! (ps ! p)) (?rows ! (ps ! q)) \<noteq> Inr True
             \<longrightarrow> ps ! p < ps ! q"
    by blast
  from pre have col: "0 \<le> SortColumn m" by simp
  from SortRows_Inr [OF col ps(1)] obtain m' where
    m': "SortRows Next ParseFloat flt m = Inr m'" "OriginalRows m' = map ((!) ?rows) ps"
    by blast
  from ps(5) have st: "\<forall>p q. p < q \<and> q < length ps \<and>
      ?lessf (?rows ! (ps ! p)) (?rows ! (ps ! q)) \<noteq> Inr True \<longrightarrow> ps ! p < ps ! q"
    unfolding ps(2) .
  from m' ps(2,3,4) st
  show "\<exists>ps m'. SortRows Next ParseFloat flt m = Inr m' \<and>
         OriginalRows m' = map ((!) ?rows) ps \<and>
         length ps = length ?rows \<and> distinct ps \<and> set ps = {..<length ?rows} \<and>
         (\<forall>p q. p < q \<and> q < length ps \<and>
                ?lessf (?rows ! (ps ! p)) (?rows ! (ps ! q)) \<noteq> Inr True \<longrightarrow> ps ! p < ps ! q)"
    by blast
next
  assume pf: "ParseFloat ''25'' = Some x \<and> ParseFloat ''30'' = Some y \<and>
    flt x y \<and> \<not> flt y x \<and> \<not> flt x x"
  let ?m = "baselineModel\<lparr>SortColumn := 2, SortAsc := True\<rparr>"
  have rows: "OriginalRows ?m = baseline" "SortColumn ?m = 2" "SortAsc ?m = True"
    by (simp_all add: baselineModel_def NewTableModel_def)
  from pf have "sort_Slice Next (SortRows_less ParseFloat flt (SortColumn ?m) (SortAsc ?m))
      (OriginalRows ?m) =
     Inr [[''2'', ''bob'', ''25''], [''3'', ''Cara'', ''25''], [''1'', ''Alice'', ''30'']]"
    unfolding rows by (intro baseline_sorted_by_Age [of ParseFloat x y flt]) blast+
  from SortRows_Inr [OF _ this] rows(2)
  show "\<exists>m'. SortRows Next ParseFloat flt ?m = Inr m' \<and>
         OriginalRows m' =
           [[''2'', ''bob'', ''25''], [''3'', ''Cara'', ''25''], [''1'', ''Alice'', ''30'']]"
    by auto
qed

theorem SortRows_stable_short_witness:
  "SortColumn (baselineModel\<lparr>SortColumn := 2, SortAsc := True\<rparr>) = 2 \<and>
   list_all (\<lambda>row. 2 < len row) (OriginalRows baselineModel) \<and>
   length (OriginalRows baselineModel) \<le> 12 \<and>
   parseDecimal ''25'' = Some 25 \<and> parseDecimal ''30'' = Some 30 \<and>
   (case SortRows id parseDecimal (<) (baselineModel\<lparr>SortColumn := 2, SortAsc := True\<rparr>) of
      Inl e \<Rightarrow> False
    | Inr m' \<Rightarrow>
        OriginalRows m' =
          [[''2'', ''bob'', ''25''], [''3'', ''Cara'', ''25''], [''1'', ''Alice'', ''30'']])"
proof -
  let ?m = "baselineModel\<lparr>SortColumn := 2, SortAsc := True\<rparr>"
  have hyp: "SortColumn ?m = 2" "list_all (\<lambda>row. 2 < len row) (OriginalRows baselineModel)"
    "length (OriginalRows baselineModel) \<le> 12"
    by (simp_all add: baselineModel_def NewTableModel_def baseline_def)
  have pf: "parseDecimal ''25'' = Some 25 \<and> parseDecimal ''30'' = Some 30 \<and>
    (25::nat) < 30 \<and> \<not> (30::nat) < 25 \<and> \<not> (25::nat) < 25"
    by (simp add: parseDecimal_examples)
  from SortRows_stable_short [of ?m id parseDecimal "(<)" 25 30] pf
  obtain m' where "SortRows id parseDecimal (<) ?m = Inr m'"
    "OriginalRows m' =
       [[''2'', ''bob'', ''25''], [''3'', ''Cara'', ''25''], [''1'', ''Alice'', ''30'']]"
    by blast
  with hyp pf show ?thesis by simp
qed

text \<open>
  The claim as written fails from 13 rows on. The rows 0 to 11 have the key 2 and row
  12 the key 1: the rows 0 and 6 compare equal, and \<open>sort.Slice\<close>, which partitions
  around the middle row, returns row 6 before row 0. The input does not reach
  \<open>breakPatterns_func\<close>, so the result is the same for every generator
  (\<open>thirteen_eval\<close>); the statement fixes one.
\<close>

theorem unstable_sort_counterexample:
  "length thirteenRows = 13 \<and>
   thirteenRows ! 0 = [''0'', ''2''] \<and> thirteenRows ! 6 = [''6'', ''2''] \<and>
   SortRows_less parseDecimal (<) 1 True [''0'', ''2''] [''6'', ''2''] = Inr False \<and>
   SortRows_less parseDecimal (<) 1 True [''6'', ''2''] [''0'', ''2''] = Inr False \<and>
   map_sum id OriginalRows (SortRows id parseDecimal (<) thirteenModel) =
     Inr [[''12'', ''1''], [''6'', ''2''], [''2'', ''2''], [''3'', ''2''], [''4'', ''2''],
          [''5'', ''2''], [''0'', ''2''], [''7'', ''2''], [''8'', ''2''], [''9'', ''2''],
          [''10'', ''2''], [''11'', ''2''], [''1'', ''2'']]"
proof -
  have rows: "OriginalRows thirteenModel = thirteenRows" "SortColumn thirteenModel = 1"
    "SortAsc thirteenModel = True"
    by (simp_all add: thirteenModel_def NewTableModel_def)
  have l: "length thirteenRows = 13" by (simp add: thirteenRows_def)
  have r0: "thirteenRows ! 0 = [''0'', ''2'']" and r6: "thirteenRows ! 6 = [''6'', ''2'']"
    by (simp_all add: thirteenRows_def)
  have c1: "SortRows_less parseDecimal (<) 1 True [''0'', ''2''] [''6'', ''2''] = Inr False"
    and c2: "SortRows_less parseDecimal (<) 1 True [''6'', ''2''] [''0'', ''2''] = Inr False"
    by (simp_all add: SortRows_less_def index_def parseDecimal_examples)
  have "sort_Slice id (SortRows_less parseDecimal (<) (SortColumn thirteenModel)
          (SortAsc thirteenModel)) (OriginalRows thirteenModel) =
     Inr [[''12'', ''1''], [''6'', ''2''], [''2'', ''2''], [''3'', ''2''], [''4'', ''2''],
          [''5'', ''2''], [''0'', ''2''], [''7'', ''2''], [''8'', ''2''], [''9'', ''2''],
          [''10'', ''2''], [''11'', ''2''], [''1'', ''2'']]"
    unfolding rows by (rule thirteen_eval)
  from SortRows_Inr [OF _ this] rows(2) obtain m' where
    "SortRows id parseDecimal (<) thirteenModel = Inr m'"
    "OriginalRows m' =
       [[''12'', ''1''], [''6'', ''2''], [''2'', ''2''], [''3'', ''2''], [''4'', ''2''],
        [''5'', ''2''], [''0'', ''2''], [''7'', ''2''], [''8'', ''2''], [''9'', ''2''],
        [''10'', ''2''], [''11'', ''2''], [''1'', ''2'']]"
    by auto
  with l r0 r6 c1 c2 show ?thesis by simp
qed


end
